theory Spec2Isabelle
  imports Main "HOL-Library.Word"
begin

section \<open>The timetracker record and its machine integers\<close>

text \<open>
  The C sources declare
  \<^verbatim>\<open>struct timetracker { char name[TT_NAME_SZ]; int running;
                       time_t remaining_seconds; time_t finish_time; };\<close>
  An \<^verbatim>\<open>int\<close> is a 32-bit and a \<^verbatim>\<open>time_t\<close> a 64-bit two's-complement
  value (the LP64 layout); arithmetic on them wraps around, comparisons are the signed
  ones (\<open>\<le>s\<close>, \<open><s\<close>). The field \<open>running\<close> is an \<^verbatim>\<open>int\<close> used as a
  flag: the code tests it for being nonzero.
\<close>

type_synonym c_int = "32 word"
type_synonym time_t = "64 word"

record timetracker =
  name :: string
  running :: c_int
  remaining_seconds :: time_t
  finish_time :: time_t

section \<open>The timer engine\<close>

text \<open>
  \<^verbatim>\<open>timetracker_off\<close> and \<^verbatim>\<open>timetracker_on\<close> read the clock themselves
  (\<^verbatim>\<open>cur_time = time(NULL)\<close>); the value the clock returns is the first argument
  of the model. Both always return 0, so the model returns the updated record only.
\<close>

definition timetracker_off :: "time_t \<Rightarrow> timetracker \<Rightarrow> timetracker" where
  "timetracker_off cur_time t =
     (if running t = 0 then t
      else if finish_time t \<le>s cur_time
        then t\<lparr>remaining_seconds := 0, running := 0, finish_time := 0\<rparr>
        else t\<lparr>remaining_seconds := finish_time t - cur_time, running := 0,
               finish_time := 0\<rparr>)"

definition timetracker_on :: "time_t \<Rightarrow> timetracker \<Rightarrow> timetracker" where
  "timetracker_on cur_time t =
     (if running t \<noteq> 0 then t
      else t\<lparr>finish_time := cur_time + remaining_seconds t, running := 1,
             remaining_seconds := 0\<rparr>)"

text \<open>
  The key dispatch of \<^verbatim>\<open>main\<close>, for the timer the key selects:
  \<^verbatim>\<open>if (timetrackers[n].running) timetracker_off(timetrackers + n);
    else timetracker_on(timetrackers + n);\<close>
\<close>

definition toggle :: "time_t \<Rightarrow> timetracker \<Rightarrow> timetracker" where
  "toggle cur_time t =
     (if running t \<noteq> 0 then timetracker_off cur_time t else timetracker_on cur_time t)"

text \<open>
  The body of the loop of \<^verbatim>\<open>draw_timetrackers\<close> for one timer: it computes the
  remaining time \<open>rem\<close> that is displayed and may stop the timer. The function reads
  the clock once before the loop (\<open>cur_time\<close>); the call of \<^verbatim>\<open>timetracker_off\<close>
  reads it again (\<open>off_time\<close>).
\<close>

definition draw_timetracker :: "time_t \<Rightarrow> time_t \<Rightarrow> timetracker \<Rightarrow> time_t \<times> timetracker" where
  "draw_timetracker cur_time off_time t =
     (if running t = 0 then (remaining_seconds t, t)
      else if finish_time t <s cur_time then (0, timetracker_off off_time t)
      else (finish_time t - cur_time, t))"

text \<open>
  Observing a timer at one instant \<open>now\<close>: both clock readings of the redraw are
  \<open>now\<close>.
\<close>

definition observe :: "time_t \<Rightarrow> timetracker \<Rightarrow> time_t \<times> timetracker" where
  "observe now t = draw_timetracker now now t"

text \<open>
  Modelled from the spec: zeroing a \<^verbatim>\<open>struct timetracker\<close>. The C sources have no
  such operation (the Ruby script's \<^verbatim>\<open>Task#zero_timer\<close> stops its own kind of
  timer and then resets the banked seconds); the spec gives
  ``\<open>zero(t, now)\<close>: \<open>turnOff\<close> then force \<open>remaining_seconds=0\<close>''.
\<close>

definition zero :: "time_t \<Rightarrow> timetracker \<Rightarrow> timetracker" where
  "zero now t = (timetracker_off now t)\<lparr>remaining_seconds := 0\<rparr>"

text \<open>The remaining time a timer stands for at an instant, as a mathematical integer.\<close>

definition effective_remaining :: "time_t \<Rightarrow> timetracker \<Rightarrow> int" where
  "effective_remaining now t =
     (if running t = 0 then sint (remaining_seconds t)
      else max 0 (sint (finish_time t) - sint now))"

definition tt_invariant :: "timetracker \<Rightarrow> bool" where
  "tt_invariant t \<longleftrightarrow>
     (running t = 0 \<longrightarrow> finish_time t = 0) \<and> (running t \<noteq> 0 \<longrightarrow> remaining_seconds t = 0)"

section \<open>The config loader\<close>

definition MAX_TIMETRACKERS :: nat where
  "MAX_TIMETRACKERS = 9"

definition TT_NAME_SZ :: nat where
  "TT_NAME_SZ = 80"

text \<open>The character classes of the C locale that \<^verbatim>\<open>sscanf\<close> uses.\<close>

definition isspace :: "char \<Rightarrow> bool" where
  "isspace c \<longleftrightarrow> c = CHR '' '' \<or> (9 \<le> (of_char c :: nat) \<and> (of_char c :: nat) \<le> 13)"

definition isdigit :: "char \<Rightarrow> bool" where
  "isdigit c \<longleftrightarrow> 48 \<le> (of_char c :: nat) \<and> (of_char c :: nat) \<le> 57"

definition decimal :: "string \<Rightarrow> nat" where
  "decimal ds = foldl (\<lambda>n c. 10 * n + (of_char c - 48)) 0 ds"

text \<open>
  The directive \<^verbatim>\<open>%d\<close>: white space is skipped, then an optional sign and a
  nonempty run of decimal digits are read; anything else is a matching failure
  (\<open>None\<close>). The value is stored into an \<^verbatim>\<open>int\<close>: a numeral outside its range,
  for which the C standard leaves the result open, is taken modulo \<open>2 ^ 32\<close>.
\<close>

definition scan_d :: "string \<Rightarrow> c_int option" where
  "scan_d s =
     (let s1 = dropWhile isspace s;
          neg = (s1 \<noteq> [] \<and> hd s1 = CHR ''-'');
          s2 = (if s1 \<noteq> [] \<and> (hd s1 = CHR ''-'' \<or> hd s1 = CHR ''+'') then tl s1 else s1);
          ds = takeWhile isdigit s2
      in if ds = [] then None
         else Some (if neg then - word_of_nat (decimal ds) else word_of_nat (decimal ds)))"

text \<open>
  \<^verbatim>\<open>sscanf(line, "%80[^=]=%dM", timetracker->name, &minutes)\<close> on a C string
  (no NUL inside). The result records how many items were assigned and their values:
  end of input before the first conversion gives \<^verbatim>\<open>EOF\<close>; the scanset
  \<^verbatim>\<open>%80[^=]\<close> takes up to 80 characters other than \<open>=\<close> and fails on none; the
  literal \<open>=\<close> must follow; then \<^verbatim>\<open>%d\<close>. The literal \<open>M\<close> comes after
  the last conversion, so whether it matches does not change the result. (A name of
  exactly 80 characters is stored with its terminating NUL one byte past
  \<^verbatim>\<open>name[TT_NAME_SZ]\<close>; the model keeps the 80 characters.)
\<close>

datatype scan_result = ScanEOF | Scan0 | Scan1 string | Scan2 string c_int

definition sscanf_name_minutes :: "string \<Rightarrow> scan_result" where
  "sscanf_name_minutes s =
     (if s = [] then ScanEOF
      else let nm = take TT_NAME_SZ (takeWhile (\<lambda>c. c \<noteq> CHR ''='') s) in
        if nm = [] then Scan0
        else (case drop (length nm) s of
                [] \<Rightarrow> Scan1 nm
              | c # r \<Rightarrow>
                  if c \<noteq> CHR ''='' then Scan1 nm
                  else (case scan_d r of None \<Rightarrow> Scan1 nm | Some m \<Rightarrow> Scan2 nm m)))"

text \<open>The C string held by a buffer: the characters before the first NUL.\<close>

definition c_string :: "string \<Rightarrow> string" where
  "c_string buf = takeWhile (\<lambda>c. c \<noteq> CHR 0x00) buf"

text \<open>
  \<^verbatim>\<open>parse_timetracker\<close> returns 1 and fills the timetracker (\<open>Parsed\<close>), returns 0
  (\<open>NoTimetracker\<close>) or returns -1000 (\<open>ParseError\<close>). The argument is the content
  of the line buffer as \<^verbatim>\<open>fgets\<close> left it. The product \<^verbatim>\<open>minutes * 60\<close> is
  computed in \<^verbatim>\<open>int\<close> and then widened to \<^verbatim>\<open>time_t\<close>.
\<close>

datatype parse_result = Parsed timetracker | NoTimetracker | ParseError

definition trim_newline :: "string \<Rightarrow> string" where
  "trim_newline s = (if s \<noteq> [] \<and> last s = CHR 0x0A then butlast s else s)"

definition parse_timetracker :: "string \<Rightarrow> parse_result" where
  "parse_timetracker line =
     (if (case line of [] \<Rightarrow> False | c # _ \<Rightarrow> c = CHR ''#'') then NoTimetracker
      else if length (c_string line) < 1 then NoTimetracker
      else (case sscanf_name_minutes (trim_newline (c_string line)) of
              Scan2 nm minutes \<Rightarrow>
                Parsed \<lparr>name = nm, running = 0, remaining_seconds = scast (minutes * 60),
                        finish_time = 0\<rparr>
            | _ \<Rightarrow> ParseError))"

text \<open>
  \<^verbatim>\<open>fgets(line, sz, f)\<close> on the unread rest of the file: at end of file it returns
  NULL (\<open>None\<close>); otherwise it reads up to \<open>sz - 1\<close> characters, stopping after a
  newline, and leaves the rest unread.
\<close>

definition fgets :: "nat \<Rightarrow> string \<Rightarrow> (string \<times> string) option" where
  "fgets sz f =
     (if f = [] then None
      else let n = min (sz - 1) (Suc (length (takeWhile (\<lambda>c. c \<noteq> CHR 0x0A) f)))
           in Some (take n f, drop n f))"

text \<open>
  The loop of \<^verbatim>\<open>get_timetrackers\<close> and what follows it. The array \<open>ret\<close> is the
  list of the timetrackers stored so far, \<open>num_tt\<close> is its length. Every failure
  makes the C function return 1; the error value names the message it prints. Read
  errors other than end of file and failures of \<^verbatim>\<open>calloc\<close> and \<^verbatim>\<open>fclose\<close>
  are left out.
\<close>

datatype load_error =
  FopenFailed | OffByOneError | ParseFailure nat string | NoTimetrackersFound

function read_timetrackers ::
  "string \<Rightarrow> nat \<Rightarrow> timetracker list \<Rightarrow> load_error + timetracker list" where
  "read_timetrackers f line_no ret =
     (case fgets 160 f of
        None \<Rightarrow> if ret = [] then Inl NoTimetrackersFound else Inr ret
      | Some (line, f') \<Rightarrow>
          if MAX_TIMETRACKERS \<le> length ret then Inl OffByOneError
          else (case parse_timetracker line of
                  ParseError \<Rightarrow> Inl (ParseFailure (Suc line_no) (trim_newline (c_string line)))
                | NoTimetracker \<Rightarrow> read_timetrackers f' (Suc line_no) ret
                | Parsed t \<Rightarrow> read_timetrackers f' (Suc line_no) (ret @ [t])))"
  by pat_completeness auto
termination
  by (relation "measure (\<lambda>(f, line_no, ret). length f)")
     (auto simp add: fgets_def Let_def split: if_splits)

declare read_timetrackers.simps [simp del]

text \<open>The file is \<open>None\<close> when \<^verbatim>\<open>fopen\<close> fails, and its content otherwise.\<close>

definition get_timetrackers :: "string option \<Rightarrow> load_error + timetracker list" where
  "get_timetrackers file =
     (case file of None \<Rightarrow> Inl FopenFailed | Some f \<Rightarrow> read_timetrackers f 0 [])"

text \<open>The lines of a file as the loop reads them, and the timers each contributes.\<close>

function file_lines :: "string \<Rightarrow> string list" where
  "file_lines f = (case fgets 160 f of None \<Rightarrow> [] | Some (line, f') \<Rightarrow> line # file_lines f')"
  by pat_completeness auto
termination
  by (relation "measure length") (auto simp add: fgets_def Let_def split: if_splits)

declare file_lines.simps [simp del]

definition line_timers :: "string \<Rightarrow> timetracker list" where
  "line_timers line = (case parse_timetracker line of Parsed t \<Rightarrow> [t] | _ \<Rightarrow> [])"

text \<open>
  A config line of the shape \<open><name>=<N>M\<close> (without its newline), the names and
  the minute counts it is stated for, and the timer it stands for.
\<close>

definition config_line :: "string \<Rightarrow> string \<Rightarrow> string" where
  "config_line nm ds = nm @ ''='' @ ds @ ''M''"

definition valid_name :: "string \<Rightarrow> bool" where
  "valid_name nm \<longleftrightarrow>
     nm \<noteq> [] \<and> length nm < TT_NAME_SZ \<and> hd nm \<noteq> CHR ''#'' \<and>
     (\<forall>c \<in> set nm. c \<noteq> CHR ''='' \<and> c \<noteq> CHR 0x00)"

definition valid_minutes :: "string \<Rightarrow> bool" where
  "valid_minutes ds \<longleftrightarrow> ds \<noteq> [] \<and> (\<forall>c \<in> set ds. isdigit c) \<and> decimal ds * 60 < 2 ^ 31"

definition initial_timer :: "string \<Rightarrow> string \<Rightarrow> timetracker" where
  "initial_timer nm ds =
     \<lparr>name = nm, running = 0, remaining_seconds = word_of_nat (decimal ds * 60),
      finish_time = 0\<rparr>"

section \<open>The task file of the Ruby script: saving and loading\<close>

text \<open>
  The Ruby script keeps, for each task, two \<^verbatim>\<open>TaskTime\<close> objects: \<^verbatim>\<open>@seconds\<close>
  is the time banked while the timer is stopped, \<^verbatim>\<open>@start_time\<close> is \<^verbatim>\<open>nil\<close>
  (\<open>None\<close>) exactly when the timer is stopped. Ruby integers are unbounded.
\<close>

record task_time =
  seconds :: int
  start_time :: "int option"

record task =
  key :: string
  taskname :: string
  goaltime :: task_time
  curtime :: task_time

text \<open>
  \<^verbatim>\<open>@tasks\<close> is a \<^verbatim>\<open>Hash\<close> from key to task; a Ruby hash (from Ruby 1.9 on)
  enumerates its entries in the order the keys were first stored, so it is an
  association list.
\<close>

record task_set =
  description :: string
  tasks :: "(string \<times> task) list"

datatype ruby_error = FileNotFound | NilReceiver | MalformedTimeString string | KeyBoundTwice

text \<open>
  The methods of \<^verbatim>\<open>TaskTime\<close>; \<open>now\<close> is the clock as an integer
  (\<^verbatim>\<open>Time.new.to_i\<close>). \<^verbatim>\<open>end_timer\<close> ignores its argument and reads the clock.
\<close>

definition get_seconds :: "int \<Rightarrow> task_time \<Rightarrow> int" where
  "get_seconds now tt =
     (case start_time tt of Some st \<Rightarrow> (now - st) + seconds tt | None \<Rightarrow> seconds tt)"

definition start_timer :: "int \<Rightarrow> task_time \<Rightarrow> task_time" where
  "start_timer now tt = tt\<lparr>start_time := Some now\<rparr>"

definition end_timer :: "int \<Rightarrow> task_time \<Rightarrow> task_time" where
  "end_timer now tt = tt\<lparr>seconds := get_seconds now tt, start_time := None\<rparr>"

definition zero_time :: "task_time \<Rightarrow> task_time" where
  "zero_time tt = tt\<lparr>seconds := 0, start_time := None\<rparr>"

text \<open>\<^verbatim>\<open>Task#zero_timer\<close>: \<^verbatim>\<open>end_timer(curtime)\<close>, then \<^verbatim>\<open>@curtime.zero()\<close>.\<close>

definition zero_timer :: "int \<Rightarrow> task \<Rightarrow> task" where
  "zero_timer now t = t\<lparr>curtime := zero_time (end_timer now (curtime t))\<rparr>"

text \<open>
  \<^verbatim>\<open>sprintf("%02d", n)\<close>: the decimal digits of \<open>n\<close>, with a minus sign if it is
  negative, padded with zeros on the left to a width of two.
\<close>

fun show_nat :: "nat \<Rightarrow> string" where
  "show_nat n =
     (if n < 10 then [char_of (48 + n)] else show_nat (n div 10) @ [char_of (48 + n mod 10)])"

declare show_nat.simps [simp del]

definition sprintf_02d :: "int \<Rightarrow> string" where
  "sprintf_02d n =
     (if n < 0 then CHR ''-'' # show_nat (nat (- n))
      else if n < 10 then CHR ''0'' # show_nat (nat n)
      else show_nat (nat n))"

text \<open>
  \<^verbatim>\<open>TaskTime#to_s\<close>; \<open>/\<close> on Ruby integers rounds down, as \<open>div\<close> does. The
  seconds left over after the minutes are computed and not printed.
\<close>

definition TaskTime_to_s :: "int \<Rightarrow> task_time \<Rightarrow> string" where
  "TaskTime_to_s now tt =
     (let curseconds = get_seconds now tt;
          hours = curseconds div 3600;
          sec_remainder = curseconds - hours * 3600;
          minutes = sec_remainder div 60
      in sprintf_02d hours @ '':'' @ sprintf_02d minutes)"

definition Task_to_s :: "int \<Rightarrow> task \<Rightarrow> string" where
  "Task_to_s now t =
     key t @ ''|'' @ taskname t @ ''|'' @ TaskTime_to_s now (curtime t) @ ''|'' @
     TaskTime_to_s now (goaltime t) @ [CHR 0x0A]"

definition TaskSet_to_s :: "int \<Rightarrow> task_set \<Rightarrow> string" where
  "TaskSet_to_s now s =
     description s @ [CHR 0x0A] @ concat (map (\<lambda>(k, t). Task_to_s now t) (tasks s))"

text \<open>
  \<^verbatim>\<open>Saver#handle_keystroke\<close> writes \<^verbatim>\<open>outfile.puts @task_set\<close> into the
  truncated task file; \<^verbatim>\<open>puts\<close> adds a newline unless the text ends with one. The
  result is the content of the file once the output is flushed.
\<close>

definition puts :: "string \<Rightarrow> string" where
  "puts str = (if str \<noteq> [] \<and> last str = CHR 0x0A then str else str @ [CHR 0x0A])"

definition Saver_handle_keystroke :: "int \<Rightarrow> task_set \<Rightarrow> string" where
  "Saver_handle_keystroke now s = puts (TaskSet_to_s now s)"

text \<open>
  \<^verbatim>\<open>IO#gets\<close> on the unread rest of a file: \<^verbatim>\<open>nil\<close> at end of file, else the
  text up to and including the next newline. \<^verbatim>\<open>String#chomp!\<close> removes one
  trailing \<open>\n\<close>, \<open>\r\n\<close> or \<open>\r\<close>.
\<close>

definition gets :: "string \<Rightarrow> (string \<times> string) option" where
  "gets f =
     (if f = [] then None
      else let n = Suc (length (takeWhile (\<lambda>c. c \<noteq> CHR 0x0A) f))
           in Some (take n f, drop n f))"

definition chomp :: "string \<Rightarrow> string" where
  "chomp s =
     (if s \<noteq> [] \<and> last s = CHR 0x0A
      then (if butlast s \<noteq> [] \<and> last (butlast s) = CHR 0x0D then butlast (butlast s)
            else butlast s)
      else if s \<noteq> [] \<and> last s = CHR 0x0D then butlast s
      else s)"

text \<open>
  \<^verbatim>\<open>String#split\<close> with a one-character separator: the fields between the
  separators, without the empty fields at the end.
\<close>

fun split_fields :: "char \<Rightarrow> string \<Rightarrow> string list" where
  "split_fields sep [] = [[]]"
| "split_fields sep (c # cs) =
     (if c = sep then [] # split_fields sep cs
      else (c # hd (split_fields sep cs)) # tl (split_fields sep cs))"

definition ruby_split :: "char \<Rightarrow> string \<Rightarrow> string list" where
  "ruby_split sep s = rev (dropWhile (\<lambda>fld. fld = []) (rev (split_fields sep s)))"

text \<open>\<^verbatim>\<open>tokens[i]\<close>, which is \<^verbatim>\<open>nil\<close> beyond the end of the array.\<close>

definition at :: "'a list \<Rightarrow> nat \<Rightarrow> 'a option" where
  "at xs i = (if i < length xs then Some (xs ! i) else None)"

text \<open>
  \<^verbatim>\<open>String#to_i\<close>: white space is skipped; an optional sign, an optional prefix
  \<open>0d\<close> and decimal digits, with single underscores allowed between digits, are read;
  what follows is ignored; without a digit the result is 0.
\<close>

fun to_i_digits :: "string \<Rightarrow> nat \<Rightarrow> nat" where
  "to_i_digits [] acc = acc"
| "to_i_digits (c # cs) acc =
     (if isdigit c then to_i_digits cs (10 * acc + (of_char c - 48))
      else if c = CHR ''_'' \<and> cs \<noteq> [] \<and> isdigit (hd cs) then to_i_digits cs acc
      else acc)"

definition strip_radix_prefix :: "string \<Rightarrow> string" where
  "strip_radix_prefix s =
     (if 1 < length s \<and> hd s = CHR ''0'' \<and> (hd (tl s) = CHR ''d'' \<or> hd (tl s) = CHR ''D'')
      then tl (tl s) else s)"

definition to_i :: "string \<Rightarrow> int" where
  "to_i s =
     (let s1 = dropWhile isspace s;
          neg = (s1 \<noteq> [] \<and> hd s1 = CHR ''-'');
          s2 = (if s1 \<noteq> [] \<and> (hd s1 = CHR ''-'' \<or> hd s1 = CHR ''+'') then tl s1 else s1);
          s3 = strip_radix_prefix s2
      in if s3 \<noteq> [] \<and> isdigit (hd s3)
         then (if neg then - int (to_i_digits s3 0) else int (to_i_digits s3 0))
         else 0)"

text \<open>
  \<^verbatim>\<open>TaskTime.CreateTaskTime\<close>; the argument is \<^verbatim>\<open>nil\<close> (\<open>None\<close>) when the line
  has too few fields, and calling \<^verbatim>\<open>split\<close> on it raises. \<^verbatim>\<open>TaskTime.new\<close>
  gets 0 for the seconds.
\<close>

definition CreateTaskTime :: "string option \<Rightarrow> ruby_error + task_time" where
  "CreateTaskTime arg =
     (case arg of
        None \<Rightarrow> Inl NilReceiver
      | Some str \<Rightarrow>
          let tokens = ruby_split CHR '':'' str in
          if length tokens \<noteq> 2 then Inl (MalformedTimeString str)
          else Inr \<lparr>seconds = 60 * 60 * to_i (tokens ! 0) + 60 * to_i (tokens ! 1) + 0,
                    start_time = None\<rparr>)"

text \<open>
  \<^verbatim>\<open>KeystrokeSubject\<close>: the keys that have an observer. A task is bound to
  \<^verbatim>\<open>key[0]\<close>, which is \<^verbatim>\<open>nil\<close> for the empty key. \<^verbatim>\<open>add_obs\<close> throws when
  the key is bound already.
\<close>

definition key_char :: "string \<Rightarrow> char option" where
  "key_char k = (case k of [] \<Rightarrow> None | c # _ \<Rightarrow> Some c)"

definition add_obs :: "char option \<Rightarrow> char option list \<Rightarrow> ruby_error + char option list" where
  "add_obs k observers = (if k \<in> set observers then Inl KeyBoundTwice else Inr (observers @ [k]))"

text \<open>\<^verbatim>\<open>@tasks[key] = task\<close>: an existing key keeps its place, a new one goes last.\<close>

fun hash_store :: "'k \<Rightarrow> 'v \<Rightarrow> ('k \<times> 'v) list \<Rightarrow> ('k \<times> 'v) list" where
  "hash_store k v [] = [(k, v)]"
| "hash_store k v (p # ps) = (if fst p = k then (k, v) # ps else p # hash_store k v ps)"

definition add_task ::
  "string \<Rightarrow> string \<Rightarrow> task_time \<Rightarrow> task_time \<Rightarrow> char option list \<Rightarrow> (string \<times> task) list \<Rightarrow>
     ruby_error + ((string \<times> task) list \<times> char option list)" where
  "add_task k nm goal cur observers ts =
     (case add_obs (key_char k) observers of
        Inl e \<Rightarrow> Inl e
      | Inr observers' \<Rightarrow>
          Inr (hash_store k \<lparr>key = k, taskname = nm, goaltime = goal, curtime = cur\<rparr> ts,
               observers'))"

text \<open>The loop of \<^verbatim>\<open>TaskSet#initialize\<close> over the lines after the description.\<close>

function read_tasks ::
  "string \<Rightarrow> char option list \<Rightarrow> (string \<times> task) list \<Rightarrow>
     ruby_error + ((string \<times> task) list \<times> char option list)" where
  "read_tasks f observers ts =
     (case gets f of
        None \<Rightarrow> Inr (ts, observers)
      | Some (line, f') \<Rightarrow>
          (let tokens = ruby_split CHR ''|'' (chomp line) in
           case CreateTaskTime (at tokens 2) of
             Inl e \<Rightarrow> Inl e
           | Inr cur \<Rightarrow>
               (case CreateTaskTime (at tokens 3) of
                  Inl e \<Rightarrow> Inl e
                | Inr goal \<Rightarrow>
                    (case add_task (tokens ! 0) (tokens ! 1) goal cur observers ts of
                       Inl e \<Rightarrow> Inl e
                     | Inr (ts', observers') \<Rightarrow> read_tasks f' observers' ts'))))"
  by pat_completeness auto
termination
  by (relation "measure (\<lambda>(f, observers, ts). length f)")
     (auto simp add: gets_def Let_def split: if_splits)

declare read_tasks.simps [simp del]

text \<open>
  \<^verbatim>\<open>TaskSet#initialize\<close>: the file is \<open>None\<close> when it cannot be opened; an empty
  file has no description line, and \<^verbatim>\<open>chomp!\<close> on \<^verbatim>\<open>nil\<close> raises.
\<close>

definition TaskSet_initialize ::
  "char option list \<Rightarrow> string option \<Rightarrow> ruby_error + (task_set \<times> char option list)" where
  "TaskSet_initialize observers file =
     (case file of
        None \<Rightarrow> Inl FileNotFound
      | Some f \<Rightarrow>
          (case gets f of
             None \<Rightarrow> Inl NilReceiver
           | Some (d, f') \<Rightarrow>
               (case read_tasks f' observers [] of
                  Inl e \<Rightarrow> Inl e
                | Inr (ts, observers') \<Rightarrow>
                    Inr (\<lparr>description = chomp d, tasks = ts\<rparr>, observers'))))"

text \<open>
  What a loaded task set satisfies, relative to the keys bound before the load: the
  fields hold no separator and no newline, each task is stored under its own key, no
  goal time is started (nothing ever starts one), and the first characters of the keys
  are distinct and were not bound before.
\<close>

definition wf_text :: "string \<Rightarrow> bool" where
  "wf_text s \<longleftrightarrow> CHR ''|'' \<notin> set s \<and> CHR 0x0A \<notin> set s"

definition wf_task_set :: "char option list \<Rightarrow> task_set \<Rightarrow> bool" where
  "wf_task_set observers s \<longleftrightarrow>
     CHR 0x0A \<notin> set (description s) \<and>
     (\<forall>(k, t) \<in> set (tasks s).
        key t = k \<and> wf_text (key t) \<and> wf_text (taskname t) \<and> start_time (goaltime t) = None) \<and>
     distinct (observers @ map (\<lambda>(k, t). key_char k) (tasks s))"

definition all_stopped :: "task_set \<Rightarrow> bool" where
  "all_stopped s \<longleftrightarrow> (\<forall>(k, t) \<in> set (tasks s). start_time (curtime t) = None)"

definition round_time :: "task_time \<Rightarrow> task_time" where
  "round_time tt = \<lparr>seconds = seconds tt div 60 * 60, start_time = None\<rparr>"

definition round_task :: "task \<Rightarrow> task" where
  "round_task t = t\<lparr>goaltime := round_time (goaltime t), curtime := round_time (curtime t)\<rparr>"

section \<open>Saving C timetrackers in the text format of the config file\<close>

text \<open>
  Modelled from the spec: saving a set of C timetrackers. The C sources have no save
  (the Ruby script saves its own task file, above); the spec gives
  ``\<open>save(timerSet) \<rightarrow> text\<close>: one \<open>name=<minutes>M\<close> line per timer, in collection
  order, losing any sub-minute remainder''. The minutes are those of the effective
  remaining time at the instant of the save.
\<close>

definition show_int :: "int \<Rightarrow> string" where
  "show_int i = (if i < 0 then CHR ''-'' # show_nat (nat (- i)) else show_nat (nat i))"

definition save_line :: "time_t \<Rightarrow> timetracker \<Rightarrow> string" where
  "save_line now t =
     name t @ ''='' @ show_int (effective_remaining now t div 60) @ ''M'' @ [CHR 0x0A]"

definition save :: "time_t \<Rightarrow> timetracker list \<Rightarrow> string" where
  "save now tts = concat (map (save_line now) tts)"

definition round_minutes :: "timetracker \<Rightarrow> timetracker" where
  "round_minutes t =
     t\<lparr>remaining_seconds := word_of_int (sint (remaining_seconds t) div 60 * 60)\<rparr>"

section \<open>Properties of the timer engine\<close>

lemma sint_add_no_overflow:
  fixes a b :: time_t
  assumes "0 \<le> sint b" and "sint a + sint b < 2 ^ 63"
  shows "sint (a + b) = sint a + sint b"
proof -
  have "- (2 ^ 63) \<le> sint a" using sint_ge [of a] by simp
  with assms show ?thesis
    by (simp add: sint_word_ariths signed_take_bit_int_eq_self)
qed

lemma sint_sub_no_overflow:
  fixes a b :: time_t
  assumes "sint b \<le> sint a" and "sint a - sint b < 2 ^ 63"
  shows "sint (a - b) = sint a - sint b"
  using assms by (simp add: sint_word_ariths signed_take_bit_int_eq_self)

text \<open>
  Turning a stopped timer on and off again at one instant gives back the banked time,
  when that time is not negative and \<open>now + remaining_seconds\<close> does not overflow.
\<close>

lemma on_then_off:
  assumes "running t = 0" and "0 \<le>s remaining_seconds t"
    and "sint now + sint (remaining_seconds t) < 2 ^ 63"
  shows "running (timetracker_off now (timetracker_on now t)) = 0 \<and>
         remaining_seconds (timetracker_off now (timetracker_on now t)) = remaining_seconds t"
proof (cases "remaining_seconds t = 0")
  case True
  with assms(1) show ?thesis
    by (simp add: timetracker_on_def timetracker_off_def)
next
  case False
  from assms(2) have nonneg: "0 \<le> sint (remaining_seconds t)"
    by (simp add: word_sle_eq)
  from False have "sint (remaining_seconds t) \<noteq> 0"
    by (metis sint_0 signed_word_eqI)
  with nonneg have pos: "0 < sint (remaining_seconds t)" by simp
  have "sint (now + remaining_seconds t) = sint now + sint (remaining_seconds t)"
    using nonneg assms(3) by (rule sint_add_no_overflow)
  with pos have "\<not> now + remaining_seconds t \<le>s now"
    by (simp add: word_sle_eq)
  with assms(1) show ?thesis
    by (simp add: timetracker_on_def timetracker_off_def)
qed

text \<open>
  Claim C3, amended. For every stopped timer \<open>t\<close> whose \<open>remaining_seconds\<close> is not
  negative, and every instant \<open>now\<close> for which \<open>now + remaining_seconds\<close> is
  representable in \<^verbatim>\<open>time_t\<close>, \<^verbatim>\<open>timetracker_on\<close> followed by
  \<^verbatim>\<open>timetracker_off\<close> at the same instant yields a stopped timer with the original
  \<open>remaining_seconds\<close>.
\<close>

theorem turn_on_then_off_restores:
  assumes "running t = 0" and "0 \<le>s remaining_seconds t"
    and "sint now + sint (remaining_seconds t) < 2 ^ 63"
  shows "running (timetracker_off now (timetracker_on now t)) = 0 \<and>
         remaining_seconds (timetracker_off now (timetracker_on now t)) = remaining_seconds t"
  using assms by (rule on_then_off)

theorem turn_on_then_off_restores_witness:
  "running (timetracker_off 1000 (timetracker_on 1000
      \<lparr>name = ''A'', running = 0, remaining_seconds = 300, finish_time = 0\<rparr>)) = 0 \<and>
   remaining_seconds (timetracker_off 1000 (timetracker_on 1000
      \<lparr>name = ''A'', running = 0, remaining_seconds = 300, finish_time = 0\<rparr>)) = 300"
  using turn_on_then_off_restores
    [of "\<lparr>name = ''A'', running = 0, remaining_seconds = 300, finish_time = 0\<rparr>" 1000]
  by (simp add: word_sle_eq)

text \<open>
  The claim as stated fails for a stopped timer with a negative \<open>remaining_seconds\<close>,
  which the loader produces from the line \<open>A=-5M\<close> (\<open>negative_minutes_example\<close>):
  the timer comes back with 0.
\<close>

theorem turn_on_then_off_counterexample:
  "running \<lparr>name = ''A'', running = 0, remaining_seconds = - 300, finish_time = 0\<rparr> = 0 \<and>
   remaining_seconds (timetracker_off 1000 (timetracker_on 1000
      \<lparr>name = ''A'', running = 0, remaining_seconds = - 300, finish_time = 0\<rparr>)) \<noteq> - 300"
  by (simp add: timetracker_on_def timetracker_off_def)

text \<open>
  Claim C4, amended. Toggling a timer twice at one instant restores whether it runs and
  its effective remaining time (\<open>remaining_seconds\<close> if stopped,
  \<open>max 0 (finish_time - now)\<close> if running), provided that a stopped timer has a
  \<open>remaining_seconds\<close> that is not negative and \<open>now + remaining_seconds\<close> is
  representable in \<^verbatim>\<open>time_t\<close>. For a running timer nothing is assumed.
\<close>

theorem toggle_twice_restores:
  assumes "running t = 0 \<longrightarrow>
      0 \<le>s remaining_seconds t \<and> sint now + sint (remaining_seconds t) < 2 ^ 63"
  shows "(running (toggle now (toggle now t)) = 0 \<longleftrightarrow> running t = 0) \<and>
         effective_remaining now (toggle now (toggle now t)) = effective_remaining now t"
proof (cases "running t = 0")
  case True
  with assms have a: "0 \<le>s remaining_seconds t" "sint now + sint (remaining_seconds t) < 2 ^ 63"
    by simp_all
  have t1: "toggle now t = timetracker_on now t" using True by (simp add: toggle_def)
  have "running (timetracker_on now t) \<noteq> 0" using True by (simp add: timetracker_on_def)
  then have "toggle now (timetracker_on now t) = timetracker_off now (timetracker_on now t)"
    by (simp add: toggle_def)
  then have t2: "toggle now (toggle now t) = timetracker_off now (timetracker_on now t)"
    by (simp only: t1)
  from on_then_off [OF True a] True show ?thesis
    by (simp add: t2 effective_remaining_def)
next
  case False
  show ?thesis
  proof (cases "finish_time t \<le>s now")
    case True
    with False have "toggle now (toggle now t) =
        t\<lparr>remaining_seconds := 0, running := 1, finish_time := now\<rparr>"
      by (simp add: toggle_def timetracker_off_def timetracker_on_def)
    moreover from True have "sint (finish_time t) \<le> sint now" by (simp add: word_sle_eq)
    ultimately show ?thesis using False by (simp add: effective_remaining_def)
  next
    case gt: False
    with False have "toggle now (toggle now t) =
        t\<lparr>remaining_seconds := 0, running := 1, finish_time := finish_time t\<rparr>"
      by (simp add: toggle_def timetracker_off_def timetracker_on_def)
    then show ?thesis using False by (simp add: effective_remaining_def)
  qed
qed

theorem toggle_twice_restores_witness:
  "effective_remaining 1000 (toggle 1000 (toggle 1000
      \<lparr>name = ''A'', running = 0, remaining_seconds = 300, finish_time = 0\<rparr>)) = 300 \<and>
   running (toggle 1000 (toggle 1000
      \<lparr>name = ''A'', running = 0, remaining_seconds = 300, finish_time = 0\<rparr>)) = 0"
  using toggle_twice_restores [of "\<lparr>name = ''A'', running = 0, remaining_seconds = 300, finish_time = 0\<rparr>" 1000]
  by (simp add: word_sle_eq effective_remaining_def toggle_def timetracker_on_def
      timetracker_off_def)

text \<open>The claim as stated fails for the stopped timer loaded from \<open>A=-5M\<close>.\<close>

theorem toggle_twice_counterexample:
  "effective_remaining 1000 (toggle 1000 (toggle 1000
      \<lparr>name = ''A'', running = 0, remaining_seconds = - 300, finish_time = 0\<rparr>)) \<noteq>
   effective_remaining 1000 \<lparr>name = ''A'', running = 0, remaining_seconds = - 300, finish_time = 0\<rparr>"
  by (simp add: toggle_def timetracker_on_def timetracker_off_def effective_remaining_def word_sle_eq)

text \<open>
  Claim C5, amended. \<open>observe\<close> returns a value that is not negative whenever a
  stopped timer has a \<open>remaining_seconds\<close> that is not negative and, for a running
  timer, \<open>finish_time - now\<close> is representable in \<^verbatim>\<open>time_t\<close> (as it is for
  every \<open>now\<close> at or after the epoch).
\<close>

theorem observe_nonnegative:
  assumes "running t = 0 \<longrightarrow> 0 \<le>s remaining_seconds t"
    and "running t \<noteq> 0 \<longrightarrow> sint (finish_time t) - sint now < 2 ^ 63"
  shows "0 \<le>s fst (observe now t)"
proof (cases "running t = 0")
  case True
  with assms(1) show ?thesis by (simp add: observe_def draw_timetracker_def)
next
  case False
  show ?thesis
  proof (cases "finish_time t <s now")
    case True
    with False show ?thesis by (simp add: observe_def draw_timetracker_def)
  next
    case ge: False
    then have le: "sint now \<le> sint (finish_time t)" by (simp add: word_sless_alt)
    with assms(2) False have "sint (finish_time t - now) = sint (finish_time t) - sint now"
      by (simp add: sint_sub_no_overflow)
    with le have "0 \<le>s finish_time t - now" by (simp add: word_sle_eq)
    with False ge show ?thesis by (simp add: observe_def draw_timetracker_def)
  qed
qed

theorem observe_nonnegative_witness:
  "0 \<le>s fst (observe 1075 \<lparr>name = ''A'', running = 1, remaining_seconds = 0, finish_time = 1300\<rparr>) \<and>
   0 \<le>s fst (observe 1075 \<lparr>name = ''A'', running = 0, remaining_seconds = 300, finish_time = 0\<rparr>)"
  using observe_nonnegative [of "\<lparr>name = ''A'', running = 1, remaining_seconds = 0, finish_time = 1300\<rparr>" 1075]
    observe_nonnegative [of "\<lparr>name = ''A'', running = 0, remaining_seconds = 300, finish_time = 0\<rparr>" 1075]
  by (simp add: word_sle_eq)

text \<open>
  The claim as stated fails for the stopped timer loaded from \<open>A=-5M\<close>: the redraw
  shows its \<open>remaining_seconds\<close> as they are.
\<close>

theorem observe_negative_counterexample:
  "fst (observe 1000 \<lparr>name = ''A'', running = 0, remaining_seconds = - 300, finish_time = 0\<rparr>) <s 0"
  by (simp add: observe_def draw_timetracker_def word_sless_alt)

text \<open>
  Stopping a running timer at or after the epoch leaves a banked time that is not
  negative.
\<close>

lemma timetracker_off_nonnegative:
  assumes "0 \<le>s cur_time" and "running t \<noteq> 0"
  shows "0 \<le>s remaining_seconds (timetracker_off cur_time t)"
proof (cases "finish_time t \<le>s cur_time")
  case True
  with assms(2) show ?thesis by (simp add: timetracker_off_def)
next
  case False
  with assms(1) have le: "sint cur_time \<le> sint (finish_time t)" and "0 \<le> sint cur_time"
    by (simp_all add: word_sle_eq)
  moreover have "sint (finish_time t) < 2 ^ 63" using sint_lt [of "finish_time t"] by simp
  ultimately have "sint (finish_time t - cur_time) = sint (finish_time t) - sint cur_time"
    by (intro sint_sub_no_overflow) simp_all
  with le have "0 \<le>s finish_time t - cur_time" by (simp add: word_sle_eq)
  with False assms(2) show ?thesis by (simp add: timetracker_off_def)
qed

text \<open>
  A redraw finds a running timer expired; \<^verbatim>\<open>timetracker_off\<close> reads the clock
  again, and stops the timer at zero as long as the clock has not gone backwards.
\<close>

lemma draw_timetracker_expired:
  assumes "running t \<noteq> 0" and "finish_time t <s cur_time" and "cur_time \<le>s off_time"
  shows "draw_timetracker cur_time off_time t =
           (0, t\<lparr>remaining_seconds := 0, running := 0, finish_time := 0\<rparr>)"
proof -
  from assms(2,3) have "finish_time t \<le>s off_time"
    by (simp add: word_sle_eq word_sless_alt)
  with assms(1,2) show ?thesis
    by (simp add: draw_timetracker_def timetracker_off_def)
qed

text \<open>
  Claim C6. For every running timer whose \<open>finish_time\<close> is strictly before \<open>now\<close>,
  \<open>observe\<close> returns exactly 0 and leaves the timer stopped with
  \<open>remaining_seconds = 0\<close> and \<open>finish_time = 0\<close>.
\<close>

theorem observe_expired:
  assumes "running t \<noteq> 0" and "finish_time t <s now"
  shows "observe now t = (0, t\<lparr>remaining_seconds := 0, running := 0, finish_time := 0\<rparr>)"
  unfolding observe_def using assms by (intro draw_timetracker_expired) simp_all

theorem observe_expired_witness:
  "observe 1000 \<lparr>name = ''A'', running = 1, remaining_seconds = 0, finish_time = 900\<rparr> =
     (0, \<lparr>name = ''A'', running = 0, remaining_seconds = 0, finish_time = 0\<rparr>)"
  using observe_expired [of "\<lparr>name = ''A'', running = 1, remaining_seconds = 0, finish_time = 900\<rparr>" 1000]
  by (simp add: word_sless_alt)

text \<open>
  Claim C10. For every running timer observed at an instant equal to its
  \<open>finish_time\<close>, \<open>observe\<close> returns 0 and leaves the timer as it is: still running,
  with its \<open>finish_time\<close> unchanged.
\<close>

theorem observe_at_finish_time:
  assumes "running t \<noteq> 0" and "finish_time t = now"
  shows "observe now t = (0, t)"
  using assms by (simp add: observe_def draw_timetracker_def)

theorem observe_at_finish_time_witness:
  "observe 1000 \<lparr>name = ''A'', running = 1, remaining_seconds = 0, finish_time = 1000\<rparr> =
     (0, \<lparr>name = ''A'', running = 1, remaining_seconds = 0, finish_time = 1000\<rparr>)"
  using observe_at_finish_time [of "\<lparr>name = ''A'', running = 1, remaining_seconds = 0, finish_time = 1000\<rparr>" 1000]
  by simp

text \<open>
  The example of the spec: a 300-second timer started at \<open>T0 = 1000\<close> and observed at
  \<open>T0 + 75\<close> shows 225 seconds and keeps running.
\<close>

lemma spec_example_observe:
  "observe 1075 (timetracker_on 1000 \<lparr>name = ''A'', running = 0, remaining_seconds = 300, finish_time = 0\<rparr>) =
     (225, \<lparr>name = ''A'', running = 1, remaining_seconds = 0, finish_time = 1300\<rparr>)"
  by (simp add: observe_def draw_timetracker_def timetracker_on_def word_sless_alt)

section \<open>Properties of the config loader\<close>

subsection \<open>The loop\<close>

lemma read_timetrackers_lines:
  "read_timetrackers f line_no ret = Inr tts \<Longrightarrow>
     tts = ret @ concat (map line_timers (file_lines f))"
proof (induction f line_no ret rule: read_timetrackers.induct)
  case (1 f line_no ret)
  show ?case
  proof (cases "fgets 160 f")
    case None
    with "1.prems" show ?thesis
      by (simp add: read_timetrackers.simps [of f] file_lines.simps [of f] split: if_splits)
  next
    case (Some p)
    obtain line f' where p: "p = (line, f')" by (cases p)
    from "1.prems" Some p have cap: "\<not> MAX_TIMETRACKERS \<le> length ret"
      by (simp add: read_timetrackers.simps [of f] split: if_splits)
    show ?thesis
    proof (cases "parse_timetracker line")
      case (Parsed t)
      with "1.prems" Some p cap have "read_timetrackers f' (Suc line_no) (ret @ [t]) = Inr tts"
        by (simp add: read_timetrackers.simps [of f])
      with "1.IH"(1) [OF Some p [symmetric] cap Parsed]
      have "tts = (ret @ [t]) @ concat (map line_timers (file_lines f'))" by simp
      moreover from Parsed have "line_timers line = [t]"
        by (simp add: line_timers_def)
      ultimately show ?thesis using Some p
        by (simp add: file_lines.simps [of f])
    next
      case NoTimetracker
      with "1.prems" Some p cap have "read_timetrackers f' (Suc line_no) ret = Inr tts"
        by (simp add: read_timetrackers.simps [of f])
      with "1.IH"(2) [OF Some p [symmetric] cap NoTimetracker]
      have "tts = ret @ concat (map line_timers (file_lines f'))" by simp
      moreover from NoTimetracker have "line_timers line = []"
        by (simp add: line_timers_def)
      ultimately show ?thesis using Some p
        by (simp add: file_lines.simps [of f])
    next
      case ParseError
      with "1.prems" Some p cap show ?thesis
        by (simp add: read_timetrackers.simps [of f])
    qed
  qed
qed

lemma get_timetrackers_lines:
  assumes "get_timetrackers file = Inr tts"
  obtains f where "file = Some f" and "tts = concat (map line_timers (file_lines f))"
proof (cases "file")
  case None
  with assms show ?thesis by (simp add: get_timetrackers_def)
next
  case (Some f)
  with assms have "read_timetrackers f 0 [] = Inr tts" by (simp add: get_timetrackers_def)
  from read_timetrackers_lines [OF this] Some that show ?thesis by simp
qed

lemma read_timetrackers_full:
  "MAX_TIMETRACKERS \<le> length ret \<Longrightarrow> f \<noteq> [] \<Longrightarrow>
     read_timetrackers f line_no ret = Inl OffByOneError"
  by (simp add: read_timetrackers.simps [of f] fgets_def Let_def)

lemma read_timetrackers_length:
  "read_timetrackers f line_no ret = Inr tts \<Longrightarrow> length ret \<le> MAX_TIMETRACKERS \<Longrightarrow>
     length tts \<le> MAX_TIMETRACKERS"
proof (induction f line_no ret rule: read_timetrackers.induct)
  case (1 f line_no ret)
  show ?case
  proof (cases "fgets 160 f")
    case None
    with "1.prems" show ?thesis
      by (simp add: read_timetrackers.simps [of f] split: if_splits)
  next
    case (Some p)
    obtain line f' where p: "p = (line, f')" by (cases p)
    from "1.prems" Some p have cap: "\<not> MAX_TIMETRACKERS \<le> length ret"
      by (simp add: read_timetrackers.simps [of f] split: if_splits)
    show ?thesis
    proof (cases "parse_timetracker line")
      case (Parsed t)
      with "1.prems" Some p cap have "read_timetrackers f' (Suc line_no) (ret @ [t]) = Inr tts"
        by (simp add: read_timetrackers.simps [of f])
      with "1.IH"(1) [OF Some p [symmetric] cap Parsed] cap show ?thesis by simp
    next
      case NoTimetracker
      with "1.prems" Some p cap have "read_timetrackers f' (Suc line_no) ret = Inr tts"
        by (simp add: read_timetrackers.simps [of f])
      with "1.IH"(2) [OF Some p [symmetric] cap NoTimetracker] "1.prems" show ?thesis by simp
    next
      case ParseError
      with "1.prems" Some p cap show ?thesis
        by (simp add: read_timetrackers.simps [of f])
    qed
  qed
qed

lemma fgets_line:
  assumes "CHR 0x0A \<notin> set x" and "length x < 159"
  shows "fgets 160 (x @ CHR 0x0A # r) = Some (x @ [CHR 0x0A], r)"
proof -
  from assms(1) have "takeWhile (\<lambda>c. c \<noteq> CHR 0x0A) (x @ CHR 0x0A # r) =
      x @ takeWhile (\<lambda>c. c \<noteq> CHR 0x0A) (CHR 0x0A # r)"
    by (intro takeWhile_append2) auto
  then have "takeWhile (\<lambda>c. c \<noteq> CHR 0x0A) (x @ CHR 0x0A # r) = x"
    by simp
  moreover from assms(2) have "min 159 (Suc (length x)) = Suc (length x)"
    by simp
  ultimately show ?thesis
    by (simp add: fgets_def Let_def)
qed

lemma fgets_append:
  assumes "fgets 160 pre = Some (line, f')" and "last pre = CHR 0x0A"
  shows "fgets 160 (pre @ post) = Some (line, f' @ post) \<and> (f' = [] \<or> last f' = CHR 0x0A)"
proof -
  from assms(1) have ne: "pre \<noteq> []" by (auto simp add: fgets_def)
  with assms(2) have "CHR 0x0A \<in> set pre" by (metis last_in_set)
  then have tw: "takeWhile (\<lambda>c. c \<noteq> CHR 0x0A) (pre @ post) = takeWhile (\<lambda>c. c \<noteq> CHR 0x0A) pre"
    by (simp add: takeWhile_append1)
  have "takeWhile (\<lambda>c. c \<noteq> CHR 0x0A) pre \<noteq> pre"
    using \<open>CHR 0x0A \<in> set pre\<close> by (auto simp add: takeWhile_eq_all_conv)
  then have "length (takeWhile (\<lambda>c. c \<noteq> CHR 0x0A) pre) \<noteq> length pre"
    using takeWhile_eq_take [of "\<lambda>c. c \<noteq> CHR 0x0A" pre] by auto
  then have le: "Suc (length (takeWhile (\<lambda>c. c \<noteq> CHR 0x0A) pre)) \<le> length pre"
    using length_takeWhile_le [of "\<lambda>c. c \<noteq> CHR 0x0A" pre] by simp
  define n where "n = min 159 (Suc (length (takeWhile (\<lambda>c. c \<noteq> CHR 0x0A) pre)))"
  from le have nle: "n \<le> length pre" by (simp add: n_def)
  from assms(1) ne have l: "line = take n pre" and f': "f' = drop n pre"
    by (simp_all add: fgets_def Let_def n_def)
  from ne tw nle have "fgets 160 (pre @ post) = Some (take n pre, drop n pre @ post)"
    by (simp add: fgets_def Let_def n_def)
  moreover have "f' = [] \<or> last f' = CHR 0x0A"
    using f' assms(2) by (cases "n < length pre") simp_all
  ultimately show ?thesis using l f' by simp
qed

lemma read_timetrackers_append:
  assumes "read_timetrackers pre line_no ret = Inr tts" and "pre = [] \<or> last pre = CHR 0x0A"
  shows "\<exists>n. read_timetrackers (pre @ post) line_no ret = read_timetrackers post n tts"
  using assms
proof (induction pre line_no ret rule: read_timetrackers.induct)
  case (1 f line_no ret)
  show ?case
  proof (cases "fgets 160 f")
    case None
    then have "f = []" by (simp add: fgets_def split: if_splits)
    with "1.prems"(1) have "tts = ret"
      by (simp add: read_timetrackers.simps [of "[]"] fgets_def split: if_splits)
    with \<open>f = []\<close> show ?thesis by auto
  next
    case (Some p)
    obtain line f' where p: "p = (line, f')" by (cases p)
    from Some have "f \<noteq> []" by (auto simp add: fgets_def)
    with "1.prems"(2) have nl: "last f = CHR 0x0A" by simp
    from fgets_append [OF Some [unfolded p] nl, of post]
    have fg: "fgets 160 (f @ post) = Some (line, f' @ post)"
      and f': "f' = [] \<or> last f' = CHR 0x0A" by simp_all
    from "1.prems"(1) Some p have cap: "\<not> MAX_TIMETRACKERS \<le> length ret"
      by (simp add: read_timetrackers.simps [of f] split: if_splits)
    show ?thesis
    proof (cases "parse_timetracker line")
      case (Parsed t)
      with "1.prems"(1) Some p cap have "read_timetrackers f' (Suc line_no) (ret @ [t]) = Inr tts"
        by (simp add: read_timetrackers.simps [of f])
      from "1.IH"(1) [OF Some p [symmetric] cap Parsed this f']
      obtain n where "read_timetrackers (f' @ post) (Suc line_no) (ret @ [t]) =
          read_timetrackers post n tts" ..
      with fg cap Parsed show ?thesis
        by (auto simp add: read_timetrackers.simps [of "f @ post"])
    next
      case NoTimetracker
      with "1.prems"(1) Some p cap have "read_timetrackers f' (Suc line_no) ret = Inr tts"
        by (simp add: read_timetrackers.simps [of f])
      from "1.IH"(2) [OF Some p [symmetric] cap NoTimetracker this f']
      obtain n where "read_timetrackers (f' @ post) (Suc line_no) ret =
          read_timetrackers post n tts" ..
      with fg cap NoTimetracker show ?thesis
        by (auto simp add: read_timetrackers.simps [of "f @ post"])
    next
      case ParseError
      with "1.prems"(1) Some p cap show ?thesis
        by (simp add: read_timetrackers.simps [of f])
    qed
  qed
qed

subsection \<open>Parsing one line\<close>

lemma isdigit_not_special:
  "isdigit c \<Longrightarrow> c \<noteq> CHR 0x00 \<and> c \<noteq> CHR ''-'' \<and> c \<noteq> CHR ''+'' \<and> \<not> isspace c \<and> c \<noteq> CHR ''=''"
  by (auto simp add: isdigit_def isspace_def)

lemma scast_small:
  assumes "n < 2 ^ 31"
  shows "(scast (word_of_nat n :: c_int) :: time_t) = word_of_nat n"
proof -
  have "sint (word_of_nat n :: c_int) = int n"
    using assms by (simp add: signed_of_nat signed_take_bit_int_eq_self)
  then show ?thesis
    by (simp add: scast_eq)
qed

lemma scan_d_digits:
  assumes "ds \<noteq> []" and "\<forall>c \<in> set ds. isdigit c" and "\<not> isdigit x"
  shows "scan_d (ds @ x # r) = Some (word_of_nat (decimal ds))"
proof -
  from assms(1) obtain d ds' where ds: "ds = d # ds'" by (cases ds) auto
  with assms(2) have d: "isdigit d" by simp
  have tw: "takeWhile isdigit (ds @ x # r) = ds"
    using assms(2,3) by (simp add: takeWhile_append2)
  from d have "dropWhile isspace (ds @ x # r) = ds @ x # r"
    by (simp add: ds isdigit_not_special)
  with d tw assms(1) show ?thesis
    by (simp add: scan_d_def Let_def ds isdigit_not_special)
qed

lemma sscanf_config_line:
  assumes "valid_name nm" and "ds \<noteq> []" and "\<forall>c \<in> set ds. isdigit c"
  shows "sscanf_name_minutes (config_line nm ds) = Scan2 nm (word_of_nat (decimal ds))"
proof -
  from assms(1) have ne: "nm \<noteq> []" and len: "length nm \<le> 80"
    and noeq: "\<forall>c \<in> set nm. c \<noteq> CHR ''=''"
    by (simp_all add: valid_name_def TT_NAME_SZ_def)
  have tw: "takeWhile (\<lambda>c. c \<noteq> CHR ''='') (nm @ CHR ''='' # ds @ ''M'') = nm"
    using noeq by (simp add: takeWhile_append2)
  have "\<not> isdigit CHR ''M''" by (simp add: isdigit_def)
  with assms(2,3) have sd: "scan_d (ds @ ''M'') = Some (word_of_nat (decimal ds))"
    using scan_d_digits [of ds "CHR ''M''" "[]"] by simp
  show ?thesis
    using ne len tw sd
    by (simp add: sscanf_name_minutes_def config_line_def TT_NAME_SZ_def Let_def)
qed

lemma cl_chars:
  assumes "valid_name nm" and "\<forall>c \<in> set ds. isdigit c"
  shows "\<forall>c \<in> set (config_line nm ds). c \<noteq> CHR 0x00"
proof
  fix c assume "c \<in> set (config_line nm ds)"
  then have "c = CHR ''='' \<or> c = CHR ''M'' \<or> c \<in> set nm \<or> c \<in> set ds"
    by (simp add: config_line_def)
  moreover have "c \<in> set nm \<Longrightarrow> c \<noteq> CHR 0x00"
    using assms(1) by (simp add: valid_name_def)
  moreover have "c \<in> set ds \<Longrightarrow> c \<noteq> CHR 0x00"
    using assms(2) isdigit_not_special [of c] by blast
  ultimately show "c \<noteq> CHR 0x00" by auto
qed

lemma config_line_no_nul:
  assumes "valid_name nm" and "\<forall>c \<in> set ds. isdigit c"
  shows "c_string (config_line nm ds @ r) = config_line nm ds @ c_string r"
  unfolding c_string_def
  by (rule takeWhile_append2) (use cl_chars [OF assms] in blast)

lemma parse_config_line:
  assumes "valid_name nm" and "valid_minutes ds"
    and "line = config_line nm ds \<or> line = config_line nm ds @ [CHR 0x0A]"
  shows "parse_timetracker line = Parsed (initial_timer nm ds)"
proof -
  from assms(2) have ds: "ds \<noteq> []" "\<forall>c \<in> set ds. isdigit c" and small: "decimal ds * 60 < 2 ^ 31"
    by (simp_all add: valid_minutes_def)
  from assms(1) obtain c nm' where nm: "nm = c # nm'" and c: "c \<noteq> CHR ''#''"
    by (cases nm) (auto simp add: valid_name_def)
  have cl: "config_line nm ds = c # nm' @ ''='' @ ds @ ''M''"
    by (simp add: config_line_def nm)
  from assms(3) c have first: "\<not> (case line of [] \<Rightarrow> False | c # _ \<Rightarrow> c = CHR ''#'')"
    by (auto simp add: cl)
  have "c_string [] = []" "c_string [CHR 0x0A] = [CHR 0x0A]"
    by (simp_all add: c_string_def)
  with assms(3) have cs: "c_string line = line"
    using config_line_no_nul [OF assms(1) ds(2), of "[]"]
      config_line_no_nul [OF assms(1) ds(2), of "[CHR 0x0A]"]
    by auto
  have "last (config_line nm ds) = CHR ''M''" and "config_line nm ds \<noteq> []"
    by (simp_all add: config_line_def)
  then have "trim_newline (config_line nm ds) = config_line nm ds"
    and "trim_newline (config_line nm ds @ [CHR 0x0A]) = config_line nm ds"
    by (simp_all add: trim_newline_def)
  with assms(3) have trim: "trim_newline line = config_line nm ds"
    by auto
  have ne: "\<not> length line < 1"
    using assms(3) by (auto simp add: cl)
  have "(word_of_nat (decimal ds) :: c_int) * 60 = word_of_nat (decimal ds * 60)"
    by (simp only: of_nat_mult of_nat_numeral)
  then have sc: "(scast ((word_of_nat (decimal ds) :: c_int) * 60) :: time_t)
      = word_of_nat (decimal ds * 60)"
    using scast_small [OF small] by (simp only:)
  have "parse_timetracker line =
      (case sscanf_name_minutes (trim_newline (c_string line)) of
         Scan2 nm minutes \<Rightarrow>
           Parsed \<lparr>name = nm, running = 0, remaining_seconds = scast (minutes * 60),
                   finish_time = 0\<rparr>
       | _ \<Rightarrow> ParseError)"
    using first ne cs by (simp only: parse_timetracker_def if_False)
  also have "\<dots> = Parsed (initial_timer nm ds)"
    by (simp only: cs trim sscanf_config_line [OF assms(1) ds] scan_result.case sc
        initial_timer_def)
  finally show ?thesis .
qed

lemma parse_timetracker_comment:
  "parse_timetracker (CHR ''#'' # r) = NoTimetracker"
  by (simp add: parse_timetracker_def)

lemma parse_timetracker_blank:
  "parse_timetracker [CHR 0x0A] = ParseError"
  by (simp add: parse_timetracker_def c_string_def trim_newline_def sscanf_name_minutes_def)

lemma parsed_initial_state:
  "parse_timetracker line = Parsed t \<Longrightarrow> running t = 0 \<and> finish_time t = 0"
  by (auto simp add: parse_timetracker_def split: if_splits scan_result.splits)

lemma line_timers_state:
  "t \<in> set (line_timers line) \<Longrightarrow> running t = 0 \<and> finish_time t = 0"
  using parsed_initial_state [of line t]
  by (simp add: line_timers_def split: parse_result.splits)

subsection \<open>Loaded timers\<close>

text \<open>
  The example of the spec: \<open>load("A=5M\n#c\nB=10M\n")\<close> yields \<open>A\<close> with 300
  seconds and \<open>B\<close> with 600 seconds, both stopped, in that order.
\<close>

lemma load_example:
  "get_timetrackers (Some ''A=5M\<newline>#c\<newline>B=10M\<newline>'') =
     Inr [\<lparr>name = ''A'', running = 0, remaining_seconds = 300, finish_time = 0\<rparr>,
          \<lparr>name = ''B'', running = 0, remaining_seconds = 600, finish_time = 0\<rparr>]"
  by code_simp

text \<open>The loader accepts a negative minute count.\<close>

lemma negative_minutes_example:
  "get_timetrackers (Some ''A=-5M\<newline>'') =
     Inr [\<lparr>name = ''A'', running = 0, remaining_seconds = - 300, finish_time = 0\<rparr>]"
  by code_simp

lemma file_lines_example:
  "file_lines ''A=5M\<newline>#c\<newline>B=10M\<newline>'' = [''A=5M\<newline>'', ''#c\<newline>'', ''B=10M\<newline>'']"
  by code_simp

lemma valid_example: "valid_name ''A'' \<and> valid_minutes ''5'' \<and> config_line ''A'' ''5'' = ''A=5M''"
  by (simp add: valid_name_def valid_minutes_def config_line_def isdigit_def decimal_def
      TT_NAME_SZ_def)

text \<open>
  Claim C1, amended. When a load succeeds, the timers are those of the lines of the
  file, in the order of the lines; and every line of the shape \<open><name>=<N>M\<close>, with a
  name of 1 to 79 characters other than \<open>=\<close> and NUL that does not start with \<open>#\<close>
  and a decimal \<open>N\<close> with \<open>N * 60 < 2 ^ 31\<close>, contributes exactly one timer, with that
  name, \<open>running = 0\<close>, \<open>remaining_seconds = N * 60\<close> and \<open>finish_time = 0\<close>.
\<close>

theorem loaded_timers_initial_in_order:
  assumes "get_timetrackers (Some f) = Inr tts" and "line \<in> set (file_lines f)"
    and "line = config_line nm ds \<or> line = config_line nm ds @ [CHR 0x0A]"
    and "valid_name nm" and "valid_minutes ds"
  shows "tts = concat (map line_timers (file_lines f)) \<and>
         line_timers line = [initial_timer nm ds]"
proof
  from assms(1) show "tts = concat (map line_timers (file_lines f))"
    by (auto elim: get_timetrackers_lines)
  from parse_config_line [OF assms(4,5,3)] show "line_timers line = [initial_timer nm ds]"
    by (simp add: line_timers_def)
qed

theorem loaded_timers_initial_in_order_witness:
  "get_timetrackers (Some ''A=5M\<newline>#c\<newline>B=10M\<newline>'') =
     Inr [\<lparr>name = ''A'', running = 0, remaining_seconds = 300, finish_time = 0\<rparr>,
          \<lparr>name = ''B'', running = 0, remaining_seconds = 600, finish_time = 0\<rparr>] \<and>
   [\<lparr>name = ''A'', running = 0, remaining_seconds = 300, finish_time = 0\<rparr>,
    \<lparr>name = ''B'', running = 0, remaining_seconds = 600, finish_time = 0\<rparr>] =
     concat (map line_timers (file_lines ''A=5M\<newline>#c\<newline>B=10M\<newline>'')) \<and>
   line_timers ''A=5M\<newline>'' = [initial_timer ''A'' ''5'']"
proof -
  have mem: "''A=5M\<newline>'' \<in> set (file_lines ''A=5M\<newline>#c\<newline>B=10M\<newline>'')"
    by (simp add: file_lines_example)
  have shape: "''A=5M\<newline>'' = config_line ''A'' ''5'' \<or>
      ''A=5M\<newline>'' = config_line ''A'' ''5'' @ [CHR 0x0A]"
    by (simp add: valid_example)
  from valid_example have v: "valid_name ''A''" "valid_minutes ''5''" by simp_all
  from loaded_timers_initial_in_order [OF load_example mem shape v] load_example
  show ?thesis by simp
qed

lemma parse_overflow_example:
  "parse_timetracker ''A=35791395M\<newline>'' =
     Parsed \<lparr>name = ''A'', running = 0, remaining_seconds = - 2147483596, finish_time = 0\<rparr>"
  by (simp add: parse_timetracker_def c_string_def trim_newline_def sscanf_name_minutes_def
      scan_d_def isspace_def isdigit_def decimal_def TT_NAME_SZ_def)

text \<open>
  The claim as stated fails for a large \<open>N\<close>: the line \<open>A=35791395M\<close> is accepted, and
  \<^verbatim>\<open>minutes * 60\<close>, computed in \<^verbatim>\<open>int\<close>, is not \<open>35791395 * 60 = 2147483700\<close>.
\<close>

theorem loaded_timer_overflow_counterexample:
  "get_timetrackers (Some ''A=35791395M\<newline>'') =
     Inr [\<lparr>name = ''A'', running = 0, remaining_seconds = - 2147483596, finish_time = 0\<rparr>] \<and>
   sint (- 2147483596 :: time_t) \<noteq> 35791395 * 60"
proof
  have "fgets 160 ''A=35791395M\<newline>'' = Some (''A=35791395M\<newline>'', [])"
    by (simp add: fgets_def)
  moreover have "fgets 160 [] = None"
    by (simp add: fgets_def)
  ultimately show "get_timetrackers (Some ''A=35791395M\<newline>'') =
     Inr [\<lparr>name = ''A'', running = 0, remaining_seconds = - 2147483596, finish_time = 0\<rparr>]"
    by (simp add: get_timetrackers_def read_timetrackers.simps [of "''A=35791395M\<newline>''"]
        read_timetrackers.simps [of "[]"] parse_overflow_example MAX_TIMETRACKERS_def)
  show "sint (- 2147483596 :: time_t) \<noteq> 35791395 * 60"
    by simp
qed

text \<open>
  Claim C2. A line that starts with \<open>#\<close> makes \<^verbatim>\<open>parse_timetracker\<close> return 0
  (lemma \<open>parse_timetracker_comment\<close>). A blank line does not: its buffer holds the
  newline, so the test \<^verbatim>\<open>len < 1\<close> under the comment ``reject empty lines'' does
  not fire, the newline is trimmed, \<^verbatim>\<open>sscanf\<close> finds nothing, and the load fails
  there, whatever precedes and follows the line.
\<close>

theorem blank_line_fails_load:
  "read_timetrackers (CHR 0x0A # rest) line_no ret =
     Inl (if MAX_TIMETRACKERS \<le> length ret then OffByOneError
          else ParseFailure (Suc line_no) [])"
proof -
  have "fgets 160 (CHR 0x0A # rest) = Some ([CHR 0x0A], rest)"
    by (simp add: fgets_def)
  moreover have "trim_newline (c_string [CHR 0x0A]) = []"
    by (simp add: trim_newline_def c_string_def)
  ultimately show ?thesis
    by (simp add: read_timetrackers.simps [of "CHR 0x0A # rest"] parse_timetracker_blank)
qed

text \<open>A comment line is skipped while there is room for another timer.\<close>

lemma comment_line_skipped:
  assumes "length ret < MAX_TIMETRACKERS" and "CHR 0x0A \<notin> set body" and "length body < 158"
  shows "read_timetrackers (CHR ''#'' # body @ CHR 0x0A # r) line_no ret =
           read_timetrackers r (Suc line_no) ret"
proof -
  from assms(2,3) have "fgets 160 ((CHR ''#'' # body) @ CHR 0x0A # r) =
      Some ((CHR ''#'' # body) @ [CHR 0x0A], r)"
    by (intro fgets_line) simp_all
  with assms(1) show ?thesis
    by (simp add: read_timetrackers.simps [of "CHR ''#'' # body @ CHR 0x0A # r"]
        parse_timetracker_comment)
qed

lemma blank_line_example:
  "get_timetrackers (Some ''A=5M\<newline>\<newline>B=10M\<newline>'') = Inl (ParseFailure 2 [])"
  by code_simp

text \<open>
  Claim C8. The predicate (\<open>running = 0\<close> implies \<open>finish_time = 0\<close>) and
  (\<open>running \<noteq> 0\<close> implies \<open>remaining_seconds = 0\<close>) holds for every timer of a
  successful load and is preserved by \<^verbatim>\<open>timetracker_on\<close>, \<^verbatim>\<open>timetracker_off\<close>,
  the toggle, \<open>observe\<close> and \<open>zero\<close>, at every instant.
\<close>

theorem tt_invariant_holds:
  "(get_timetrackers file = Inr tts \<longrightarrow> (\<forall>t \<in> set tts. tt_invariant t)) \<and>
   (tt_invariant t \<longrightarrow>
      tt_invariant (timetracker_on now t) \<and> tt_invariant (timetracker_off now t) \<and>
      tt_invariant (toggle now t) \<and> tt_invariant (snd (observe now t)) \<and>
      tt_invariant (zero now t))"
proof (intro conjI impI ballI)
  fix t' assume "get_timetrackers file = Inr tts" and "t' \<in> set tts"
  then obtain line where "t' \<in> set (line_timers line)"
    by (auto elim!: get_timetrackers_lines)
  from line_timers_state [OF this] show "tt_invariant t'"
    by (simp add: tt_invariant_def)
next
  assume "tt_invariant t"
  then show "tt_invariant (timetracker_on now t)"
    by (simp add: tt_invariant_def timetracker_on_def)
next
  assume "tt_invariant t"
  then show "tt_invariant (timetracker_off now t)"
    by (simp add: tt_invariant_def timetracker_off_def)
next
  assume "tt_invariant t"
  then show "tt_invariant (toggle now t)"
    by (simp add: tt_invariant_def toggle_def timetracker_on_def timetracker_off_def)
next
  assume "tt_invariant t"
  then show "tt_invariant (snd (observe now t))"
    by (simp add: tt_invariant_def observe_def draw_timetracker_def timetracker_off_def)
next
  assume "tt_invariant t"
  then show "tt_invariant (zero now t)"
    by (simp add: tt_invariant_def zero_def timetracker_off_def)
qed

theorem tt_invariant_holds_witness:
  "get_timetrackers (Some ''A=5M\<newline>#c\<newline>B=10M\<newline>'') =
     Inr [\<lparr>name = ''A'', running = 0, remaining_seconds = 300, finish_time = 0\<rparr>,
          \<lparr>name = ''B'', running = 0, remaining_seconds = 600, finish_time = 0\<rparr>] \<and>
   tt_invariant \<lparr>name = ''A'', running = 0, remaining_seconds = 300, finish_time = 0\<rparr> \<and>
   tt_invariant (timetracker_on 1000
     \<lparr>name = ''A'', running = 0, remaining_seconds = 300, finish_time = 0\<rparr>) \<and>
   tt_invariant (zero 1000
     \<lparr>name = ''A'', running = 0, remaining_seconds = 300, finish_time = 0\<rparr>)"
  using tt_invariant_holds
    [of "Some ''A=5M\<newline>#c\<newline>B=10M\<newline>''"
        "[\<lparr>name = ''A'', running = 0, remaining_seconds = 300, finish_time = 0\<rparr>,
          \<lparr>name = ''B'', running = 0, remaining_seconds = 600, finish_time = 0\<rparr>]"
        "\<lparr>name = ''A'', running = 0, remaining_seconds = 300, finish_time = 0\<rparr>" 1000]
    load_example
  by simp

text \<open>
  Claim C9. When a file up to the end of some line loads with
  \<^verbatim>\<open>MAX_TIMETRACKERS\<close> timers, any text after that line, whatever it is, makes the
  load of the whole file fail with the message of the capacity check. The check comes
  before the line is parsed, so a comment or a blank line fails as well.
\<close>

theorem load_fails_after_capacity:
  assumes "get_timetrackers (Some pre) = Inr tts" and "length tts = MAX_TIMETRACKERS"
    and "last pre = CHR 0x0A" and "post \<noteq> []"
  shows "get_timetrackers (Some (pre @ post)) = Inl OffByOneError"
proof -
  from assms(1) have "read_timetrackers pre 0 [] = Inr tts"
    by (simp add: get_timetrackers_def)
  with assms(3) obtain n where
    "read_timetrackers (pre @ post) 0 [] = read_timetrackers post n tts"
    using read_timetrackers_append [of pre 0 "[]" tts post] by auto
  moreover from assms(2,4) have "read_timetrackers post n tts = Inl OffByOneError"
    by (simp add: read_timetrackers_full)
  ultimately show ?thesis by (simp add: get_timetrackers_def)
qed

lemma nine_timers_example:
  "get_timetrackers (Some
     ''A=1M\<newline>B=2M\<newline>C=3M\<newline>D=4M\<newline>E=5M\<newline>F=6M\<newline>G=7M\<newline>H=8M\<newline>I=9M\<newline>'') =
   Inr [\<lparr>name = ''A'', running = 0, remaining_seconds = 60, finish_time = 0\<rparr>,
        \<lparr>name = ''B'', running = 0, remaining_seconds = 120, finish_time = 0\<rparr>,
        \<lparr>name = ''C'', running = 0, remaining_seconds = 180, finish_time = 0\<rparr>,
        \<lparr>name = ''D'', running = 0, remaining_seconds = 240, finish_time = 0\<rparr>,
        \<lparr>name = ''E'', running = 0, remaining_seconds = 300, finish_time = 0\<rparr>,
        \<lparr>name = ''F'', running = 0, remaining_seconds = 360, finish_time = 0\<rparr>,
        \<lparr>name = ''G'', running = 0, remaining_seconds = 420, finish_time = 0\<rparr>,
        \<lparr>name = ''H'', running = 0, remaining_seconds = 480, finish_time = 0\<rparr>,
        \<lparr>name = ''I'', running = 0, remaining_seconds = 540, finish_time = 0\<rparr>]"
  by code_simp

theorem load_fails_after_capacity_witness:
  "get_timetrackers (Some
     (''A=1M\<newline>B=2M\<newline>C=3M\<newline>D=4M\<newline>E=5M\<newline>F=6M\<newline>G=7M\<newline>H=8M\<newline>I=9M\<newline>'' @
      ''# end\<newline>'')) = Inl OffByOneError"
  using load_fails_after_capacity [OF nine_timers_example, of "''# end\<newline>''"]
  by (simp add: MAX_TIMETRACKERS_def)

text \<open>A successful load never has more than \<^verbatim>\<open>MAX_TIMETRACKERS\<close> timers.\<close>

lemma get_timetrackers_length:
  "get_timetrackers file = Inr tts \<Longrightarrow> length tts \<le> MAX_TIMETRACKERS"
  using read_timetrackers_length [of _ 0 "[]" tts]
  by (auto simp add: get_timetrackers_def split: option.splits)

section \<open>Properties of the task file\<close>

subsection \<open>Printing and reading numbers\<close>

lemma isdigit_char_of: "d < 10 \<Longrightarrow> isdigit (char_of (48 + d :: nat))"
  by (simp add: isdigit_def)

lemma digit_value_char_of: "d < 10 \<Longrightarrow> (of_char (char_of (48 + d :: nat)) :: nat) - 48 = d"
  by simp

lemma show_nat_digits: "c \<in> set (show_nat n) \<Longrightarrow> isdigit c"
proof (induction n rule: show_nat.induct)
  case (1 n)
  show ?case
  proof (cases "n < 10")
    case True
    with "1.prems" show ?thesis
      by (simp add: show_nat.simps [of n] isdigit_char_of)
  next
    case False
    with "1.prems" have "c \<in> set (show_nat (n div 10)) \<or> c = char_of (48 + n mod 10)"
      by (simp add: show_nat.simps [of n]) blast
    with "1.IH" False show ?thesis
      by (auto simp add: isdigit_char_of)
  qed
qed

lemma show_nat_nonempty: "show_nat n \<noteq> []"
  by (simp add: show_nat.simps [of n])

lemma to_i_digits_foldl:
  "(\<And>c. c \<in> set ds \<Longrightarrow> isdigit c) \<Longrightarrow>
     to_i_digits ds acc = foldl (\<lambda>n c. 10 * n + (of_char c - 48)) acc ds"
  by (induction ds arbitrary: acc) simp_all

lemma foldl_show_nat:
  "foldl (\<lambda>n c. 10 * n + (of_char c - 48)) 0 (show_nat n) = n"
proof (induction n rule: show_nat.induct)
  case (1 n)
  show ?case
  proof (cases "n < 10")
    case True
    then show ?thesis
      by (simp add: show_nat.simps [of n])
  next
    case False
    have "n mod 10 < 10" by simp
    then have "(of_char (char_of (48 + n mod 10)) :: nat) - 48 = n mod 10"
      by (rule digit_value_char_of)
    with "1.IH" False show ?thesis
      by (simp add: show_nat.simps [of n])
  qed
qed

lemma to_i_digits_show_nat: "to_i_digits (show_nat n) 0 = n"
  using to_i_digits_foldl [of "show_nat n" 0] show_nat_digits foldl_show_nat by simp

lemma isdigit_plain:
  "isdigit c \<Longrightarrow> \<not> isspace c \<and> c \<noteq> CHR ''-'' \<and> c \<noteq> CHR ''+'' \<and> c \<noteq> CHR ''d'' \<and>
     c \<noteq> CHR ''D'' \<and> c \<noteq> CHR '':'' \<and> c \<noteq> CHR ''|'' \<and> c \<noteq> CHR 0x0A \<and> c \<noteq> CHR 0x0D"
  by (auto simp add: isdigit_def isspace_def)

lemma no_radix_prefix:
  assumes "\<forall>c \<in> set ds. isdigit c"
  shows "strip_radix_prefix ds = ds"
proof (cases ds)
  case Nil
  then show ?thesis by (simp add: strip_radix_prefix_def)
next
  case (Cons d ds')
  show ?thesis
  proof (cases ds')
    case Nil
    with Cons show ?thesis by (simp add: strip_radix_prefix_def)
  next
    case (Cons e es)
    with assms \<open>ds = d # ds'\<close> have "isdigit e" by simp
    from isdigit_plain [OF this] Cons \<open>ds = d # ds'\<close> show ?thesis
      by (simp add: strip_radix_prefix_def)
  qed
qed

lemma to_i_unsigned:
  assumes "ds \<noteq> []" and "\<forall>c \<in> set ds. isdigit c"
  shows "to_i ds = int (to_i_digits ds 0)"
proof -
  from assms(1) obtain d ds' where ds: "ds = d # ds'" by (cases ds) auto
  with assms(2) have d: "isdigit d" by simp
  have strip: "strip_radix_prefix (d # ds') = d # ds'"
    using no_radix_prefix [OF assms(2)] by (simp add: ds)
  from isdigit_plain [OF d] d strip show ?thesis
    by (simp add: to_i_def Let_def ds)
qed

lemma to_i_negative:
  assumes "ds \<noteq> []" and "\<forall>c \<in> set ds. isdigit c"
  shows "to_i (CHR ''-'' # ds) = - int (to_i_digits ds 0)"
proof -
  from assms(1) obtain d ds' where ds: "ds = d # ds'" by (cases ds) auto
  with assms(2) have d: "isdigit d" by simp
  have strip: "strip_radix_prefix (d # ds') = d # ds'"
    using no_radix_prefix [OF assms(2)] by (simp add: ds)
  have "\<not> isspace CHR ''-''" by (simp add: isspace_def)
  with d strip show ?thesis
    by (simp add: to_i_def Let_def ds)
qed

text \<open>\<^verbatim>\<open>to_i\<close> reads back what \<^verbatim>\<open>sprintf("%02d")\<close> prints.\<close>

lemma to_i_sprintf_02d: "to_i (sprintf_02d n) = n"
proof -
  consider "n < 0" | "0 \<le> n" "n < 10" | "10 \<le> n" by linarith
  then show ?thesis
  proof cases
    case 1
    then show ?thesis
      using to_i_negative [OF show_nat_nonempty, of "nat (- n)"] show_nat_digits
      by (simp add: sprintf_02d_def to_i_digits_show_nat)
  next
    case 2
    have "isdigit CHR ''0''" by (simp add: isdigit_def)
    then have "\<forall>c \<in> set (CHR ''0'' # show_nat (nat n)). isdigit c"
      using show_nat_digits by auto
    then have "to_i (CHR ''0'' # show_nat (nat n)) =
        int (to_i_digits (CHR ''0'' # show_nat (nat n)) 0)"
      by (intro to_i_unsigned) simp_all
    moreover have "to_i_digits (CHR ''0'' # show_nat (nat n)) 0 = to_i_digits (show_nat (nat n)) 0"
      by (simp add: isdigit_def)
    ultimately show ?thesis using 2
      by (simp add: sprintf_02d_def to_i_digits_show_nat)
  next
    case 3
    then show ?thesis
      using to_i_unsigned [OF show_nat_nonempty, of "nat n"] show_nat_digits
      by (simp add: sprintf_02d_def to_i_digits_show_nat)
  qed
qed

lemma sprintf_02d_chars:
  "c \<in> set (sprintf_02d n) \<Longrightarrow> c \<noteq> CHR '':'' \<and> c \<noteq> CHR ''|'' \<and> c \<noteq> CHR 0x0A \<and> c \<noteq> CHR 0x0D"
proof -
  assume "c \<in> set (sprintf_02d n)"
  then have "c = CHR ''-'' \<or> c = CHR ''0'' \<or> (\<exists>m. c \<in> set (show_nat m))"
    by (auto simp add: sprintf_02d_def split: if_splits)
  then show ?thesis
    using isdigit_plain [of c] show_nat_digits [of c] by auto
qed

lemma sprintf_02d_nonempty: "sprintf_02d n \<noteq> []"
  by (simp add: sprintf_02d_def show_nat_nonempty)

text \<open>Hours and minutes printed by \<^verbatim>\<open>TaskTime#to_s\<close> give back the whole minutes.\<close>

lemma minutes_arith:
  fixes s :: int
  shows "60 * 60 * (s div 3600) + 60 * ((s - s div 3600 * 3600) div 60) + 0 = s div 60 * 60"
proof -
  have "s - s div 3600 * 3600 = s mod 3600"
    by (simp add: minus_div_mult_eq_mod)
  moreover have "s div 60 = 60 * (s div 3600) + s mod 3600 div 60"
  proof -
    have "s = 60 * (60 * (s div 3600)) + s mod 3600" by simp
    then have "s div 60 = (60 * (60 * (s div 3600)) + s mod 3600) div 60" by simp
    also have "\<dots> = 60 * (s div 3600) + s mod 3600 div 60"
      by (simp only: div_mult_self4 [of 60 "60 * (s div 3600)" "s mod 3600"]) 
    finally show ?thesis .
  qed
  ultimately show ?thesis by simp
qed

subsection \<open>Fields and lines\<close>

lemma split_fields_nonempty: "split_fields sep s \<noteq> []"
  by (cases s) simp_all

lemma split_fields_single: "sep \<notin> set a \<Longrightarrow> split_fields sep a = [a]"
  by (induction a) auto

lemma split_fields_append:
  "sep \<notin> set a \<Longrightarrow> split_fields sep (a @ sep # r) = a # split_fields sep r"
  by (induction a) auto

lemma ruby_split_two:
  assumes "sep \<notin> set a" and "sep \<notin> set b" and "b \<noteq> []"
  shows "ruby_split sep (a @ sep # b) = [a, b]"
  using assms by (simp add: ruby_split_def split_fields_append split_fields_single)

lemma ruby_split_four:
  assumes "sep \<notin> set a" and "sep \<notin> set b" and "sep \<notin> set c" and "sep \<notin> set d"
    and "d \<noteq> []"
  shows "ruby_split sep (a @ sep # b @ sep # c @ sep # d) = [a, b, c, d]"
  using assms by (simp add: ruby_split_def split_fields_append split_fields_single)

lemma split_fields_fields:
  "fld \<in> set (split_fields sep s) \<Longrightarrow> sep \<notin> set fld \<and> set fld \<subseteq> set s"
proof (induction s arbitrary: fld)
  case Nil
  then show ?case by simp
next
  case (Cons c cs)
  show ?case
  proof (cases "c = sep")
    case True
    with Cons.prems have "fld = [] \<or> fld \<in> set (split_fields sep cs)" by simp
    with Cons.IH show ?thesis by auto
  next
    case False
    let ?r = "split_fields sep cs"
    have r: "?r = hd ?r # tl ?r" using split_fields_nonempty [of sep cs] by simp
    from False Cons.prems have "fld = c # hd ?r \<or> fld \<in> set (tl ?r)" by simp
    moreover have "hd ?r \<in> set ?r" using split_fields_nonempty [of sep cs] by simp
    then have "sep \<notin> set (hd ?r) \<and> set (hd ?r) \<subseteq> set cs" by (rule Cons.IH)
    moreover have "set (tl ?r) \<subseteq> set ?r" by (metis r set_subset_Cons)
    then have "fld \<in> set (tl ?r) \<Longrightarrow> sep \<notin> set fld \<and> set fld \<subseteq> set cs"
      using Cons.IH by blast
    ultimately show ?thesis using False by auto
  qed
qed

lemma ruby_split_fields:
  assumes "fld \<in> set (ruby_split sep s)"
  shows "sep \<notin> set fld \<and> set fld \<subseteq> set s"
proof -
  from assms have "fld \<in> set (split_fields sep s)"
    by (auto simp add: ruby_split_def dest: set_dropWhileD)
  then show ?thesis by (rule split_fields_fields)
qed

lemma TaskTime_to_s_chars:
  assumes "c \<in> set (TaskTime_to_s now tt)"
  shows "c \<noteq> CHR ''|'' \<and> c \<noteq> CHR 0x0A \<and> c \<noteq> CHR 0x0D"
proof -
  from assms have "c = CHR '':'' \<or> (\<exists>n. c \<in> set (sprintf_02d n))"
    by (auto simp add: TaskTime_to_s_def Let_def)
  then show ?thesis using sprintf_02d_chars [of c] by auto
qed

lemma TaskTime_to_s_nonempty: "TaskTime_to_s now tt \<noteq> []"
  by (simp add: TaskTime_to_s_def Let_def)

lemma TaskTime_to_s_last: "last (TaskTime_to_s now tt) \<noteq> CHR 0x0D"
  using TaskTime_to_s_chars [of "last (TaskTime_to_s now tt)" now tt]
    last_in_set [OF TaskTime_to_s_nonempty [of now tt]]
  by blast

lemma CreateTaskTime_to_s:
  assumes "start_time tt = None"
  shows "CreateTaskTime (Some (TaskTime_to_s now tt)) = Inr (round_time tt)"
proof -
  define h where "h = seconds tt div 3600"
  define m where "m = (seconds tt - h * 3600) div 60"
  from assms have str: "TaskTime_to_s now tt = sprintf_02d h @ CHR '':'' # sprintf_02d m"
    by (simp add: TaskTime_to_s_def Let_def get_seconds_def h_def m_def)
  have "CHR '':'' \<notin> set (sprintf_02d h)" "CHR '':'' \<notin> set (sprintf_02d m)"
    using sprintf_02d_chars by blast+
  then have "ruby_split CHR '':'' (sprintf_02d h @ CHR '':'' # sprintf_02d m) =
      [sprintf_02d h, sprintf_02d m]"
    using sprintf_02d_nonempty by (rule ruby_split_two)
  moreover have "60 * 60 * h + 60 * m + 0 = seconds tt div 60 * 60"
    unfolding h_def m_def by (rule minutes_arith)
  ultimately show ?thesis
    by (simp add: CreateTaskTime_def str Let_def to_i_sprintf_02d round_time_def)
qed

lemma CreateTaskTime_Inr:
  "CreateTaskTime arg = Inr tt \<Longrightarrow> start_time tt = None \<and> arg \<noteq> None"
  by (auto simp add: CreateTaskTime_def Let_def split: option.splits if_splits)

lemma gets_line:
  assumes "CHR 0x0A \<notin> set x"
  shows "gets (x @ CHR 0x0A # r) = Some (x @ [CHR 0x0A], r)"
proof -
  from assms have "takeWhile (\<lambda>c. c \<noteq> CHR 0x0A) (x @ CHR 0x0A # r) =
      x @ takeWhile (\<lambda>c. c \<noteq> CHR 0x0A) (CHR 0x0A # r)"
    by (intro takeWhile_append2) auto
  then have "takeWhile (\<lambda>c. c \<noteq> CHR 0x0A) (x @ CHR 0x0A # r) = x"
    by simp
  then show ?thesis by (simp add: gets_def)
qed

lemma gets_empty: "gets [] = None"
  by (simp add: gets_def)

lemma gets_shorter: "gets f = Some (line, f') \<Longrightarrow> length f' < length f"
  by (auto simp add: gets_def Let_def split: if_splits)

lemma gets_butlast:
  assumes "gets f = Some (line, f')"
  shows "CHR 0x0A \<notin> set (butlast line)"
proof -
  let ?p = "takeWhile (\<lambda>c. c \<noteq> CHR 0x0A) f"
  from assms have line: "line = take (Suc (length ?p)) f"
    by (auto simp add: gets_def Let_def split: if_splits)
  have p: "CHR 0x0A \<notin> set ?p" by (auto dest: set_takeWhileD)
  show ?thesis
  proof (cases "Suc (length ?p) \<le> length f")
    case True
    then have "butlast line = take (length ?p) f"
      by (simp add: line butlast_take)
    also have "\<dots> = ?p" by (simp add: takeWhile_eq_take [symmetric])
    finally show ?thesis using p by simp
  next
    case False
    then have "length ?p = length f"
      using length_takeWhile_le [of "\<lambda>c. c \<noteq> CHR 0x0A" f] by simp
    then have "?p = f" using takeWhile_eq_take [of "\<lambda>c. c \<noteq> CHR 0x0A" f] by simp
    with p have "CHR 0x0A \<notin> set f" by simp
    then show ?thesis by (auto simp add: line dest: in_set_butlastD in_set_takeD)
  qed
qed

lemma chomp_line:
  assumes "x \<noteq> []" and "last x \<noteq> CHR 0x0D"
  shows "chomp (x @ [CHR 0x0A]) = x"
  using assms by (simp add: chomp_def)

lemma chomp_no_newline:
  assumes "CHR 0x0A \<notin> set (butlast s)"
  shows "CHR 0x0A \<notin> set (chomp s)"
proof (cases "s = []")
  case True
  then show ?thesis by (simp add: chomp_def)
next
  case False
  then have s: "s = butlast s @ [last s]" by simp
  show ?thesis
  proof (cases "last s = CHR 0x0A")
    case True
    with assms False show ?thesis
      by (auto simp add: chomp_def dest: in_set_butlastD)
  next
    case False
    with assms s have "CHR 0x0A \<notin> set s"
      by (metis Un_iff empty_iff insert_iff list.set(1) list.set(2) set_append)
    with assms False show ?thesis
      by (auto simp add: chomp_def)
  qed
qed

lemma hash_store_fresh: "k \<notin> fst ` set ps \<Longrightarrow> hash_store k v ps = ps @ [(k, v)]"
  by (induction ps) auto

subsection \<open>Reading back what was saved\<close>

lemma Task_to_s_line:
  assumes "wf_text (key t)" and "wf_text (taskname t)"
  obtains x where "Task_to_s now t = x @ [CHR 0x0A]" and "CHR 0x0A \<notin> set x"
    and "chomp (x @ [CHR 0x0A]) = x"
    and "ruby_split CHR ''|'' x =
      [key t, taskname t, TaskTime_to_s now (curtime t), TaskTime_to_s now (goaltime t)]"
proof -
  define c where "c = TaskTime_to_s now (curtime t)"
  define g where "g = TaskTime_to_s now (goaltime t)"
  define x where "x = key t @ CHR ''|'' # taskname t @ CHR ''|'' # c @ CHR ''|'' # g"
  have cs: "CHR ''|'' \<notin> set c" "CHR 0x0A \<notin> set c"
    and gs: "CHR ''|'' \<notin> set g" "CHR 0x0A \<notin> set g"
    using TaskTime_to_s_chars unfolding c_def g_def by blast+
  have gne: "g \<noteq> []" and glast: "last g \<noteq> CHR 0x0D"
    unfolding g_def by (rule TaskTime_to_s_nonempty, rule TaskTime_to_s_last)
  have 1: "Task_to_s now t = x @ [CHR 0x0A]"
    by (simp add: Task_to_s_def x_def c_def g_def)
  have 2: "CHR 0x0A \<notin> set x"
    using assms cs gs by (simp add: x_def wf_text_def)
  have "x \<noteq> []" and "last x = last g"
    using gne by (simp_all add: x_def)
  with glast have 3: "chomp (x @ [CHR 0x0A]) = x"
    by (intro chomp_line) simp_all
  have 4: "ruby_split CHR ''|'' x = [key t, taskname t, c, g]"
    unfolding x_def using assms cs gs gne
    by (intro ruby_split_four) (simp_all add: wf_text_def)
  from 1 2 3 4 that show ?thesis by (simp add: c_def g_def)
qed

lemma read_tasks_saved_task:
  assumes "wf_text (key t)" and "wf_text (taskname t)"
    and "start_time (curtime t) = None" and "start_time (goaltime t) = None"
  shows "read_tasks (Task_to_s now t @ r) observers ts =
     (case add_task (key t) (taskname t) (round_time (goaltime t)) (round_time (curtime t))
             observers ts of
        Inl e \<Rightarrow> Inl e
      | Inr (ts', observers') \<Rightarrow> read_tasks r observers' ts')"
proof -
  from Task_to_s_line [OF assms(1,2), of now] obtain x where
    x: "Task_to_s now t = x @ [CHR 0x0A]" and nl: "CHR 0x0A \<notin> set x"
    and ch: "chomp (x @ [CHR 0x0A]) = x"
    and sp: "ruby_split CHR ''|'' x =
      [key t, taskname t, TaskTime_to_s now (curtime t), TaskTime_to_s now (goaltime t)]"
    by blast
  have g: "gets (Task_to_s now t @ r) = Some (x @ [CHR 0x0A], r)"
    using gets_line [OF nl, of r] by (simp add: x)
  show ?thesis
    by (simp add: read_tasks.simps [of "Task_to_s now t @ r"] g ch sp at_def Let_def
        CreateTaskTime_to_s [OF assms(3)] CreateTaskTime_to_s [OF assms(4)])
qed

lemma read_tasks_saved:
  assumes "\<forall>(k, t) \<in> set kts. key t = k \<and> wf_text (key t) \<and> wf_text (taskname t) \<and>
      start_time (curtime t) = None \<and> start_time (goaltime t) = None"
    and "distinct (observers @ map (\<lambda>(k, t). key_char k) kts)"
    and "\<forall>(k, t) \<in> set acc. key_char k \<in> set observers"
  shows "read_tasks (concat (map (\<lambda>(k, t). Task_to_s now t) kts)) observers acc =
     Inr (acc @ map (\<lambda>(k, t). (k, round_task t)) kts,
          observers @ map (\<lambda>(k, t). key_char k) kts)"
  using assms
proof (induction kts arbitrary: observers acc)
  case Nil
  then show ?case
    by (simp add: read_tasks.simps [of "[]"] gets_empty)
next
  case (Cons kt kts)
  obtain k t where kt: "kt = (k, t)" by (cases kt)
  from Cons.prems(1) kt have t: "key t = k" "wf_text (key t)" "wf_text (taskname t)"
    "start_time (curtime t) = None" "start_time (goaltime t) = None"
    by auto
  from Cons.prems(2) kt have fresh: "key_char k \<notin> set observers"
    by simp
  with Cons.prems(3) have "k \<notin> fst ` set acc" by force
  then have store: "hash_store k (round_task t) acc = acc @ [(k, round_task t)]"
    by (rule hash_store_fresh)
  have rec: "\<lparr>key = k, taskname = taskname t, goaltime = round_time (goaltime t),
      curtime = round_time (curtime t)\<rparr> = round_task t"
    using t(1) by (simp add: round_task_def)
  have add: "add_task (key t) (taskname t) (round_time (goaltime t)) (round_time (curtime t))
      observers acc = Inr (acc @ [(k, round_task t)], observers @ [key_char k])"
    using fresh by (simp add: add_task_def add_obs_def t(1) rec store)
  have IH: "read_tasks (concat (map (\<lambda>(k, t). Task_to_s now t) kts))
      (observers @ [key_char k]) (acc @ [(k, round_task t)]) =
     Inr ((acc @ [(k, round_task t)]) @ map (\<lambda>(k, t). (k, round_task t)) kts,
          (observers @ [key_char k]) @ map (\<lambda>(k, t). key_char k) kts)"
  proof (rule Cons.IH)
    from Cons.prems(1) show "\<forall>(k, t) \<in> set kts. key t = k \<and> wf_text (key t) \<and>
        wf_text (taskname t) \<and> start_time (curtime t) = None \<and> start_time (goaltime t) = None"
      by simp
    from Cons.prems(2) kt
    show "distinct ((observers @ [key_char k]) @ map (\<lambda>(k, t). key_char k) kts)"
      by simp
    from Cons.prems(3)
    show "\<forall>(k', t') \<in> set (acc @ [(k, round_task t)]). key_char k' \<in> set (observers @ [key_char k])"
      by auto
  qed
  have "read_tasks (concat (map (\<lambda>(k, t). Task_to_s now t) (kt # kts))) observers acc =
      read_tasks (Task_to_s now t @ concat (map (\<lambda>(k, t). Task_to_s now t) kts)) observers acc"
    by (simp add: kt)
  also have "\<dots> = read_tasks (concat (map (\<lambda>(k, t). Task_to_s now t) kts))
      (observers @ [key_char k]) (acc @ [(k, round_task t)])"
    by (simp add: read_tasks_saved_task [OF t(2-5)] add)
  also note IH
  finally show ?case by (simp add: kt)
qed

lemma saved_tasks_end:
  "concat (map (\<lambda>(k, t). Task_to_s now t) kts) = [] \<or>
   last (concat (map (\<lambda>(k, t). Task_to_s now t) kts)) = CHR 0x0A"
proof (cases kts rule: rev_cases)
  case Nil
  then show ?thesis by simp
next
  case (snoc kts' kt)
  obtain k t where "kt = (k, t)" by (cases kt)
  with snoc show ?thesis by (simp add: Task_to_s_def)
qed

lemma puts_TaskSet_to_s: "puts (TaskSet_to_s now s) = TaskSet_to_s now s"
  using saved_tasks_end [of now "tasks s"]
  by (auto simp add: puts_def TaskSet_to_s_def)

lemma saved_file_example:
  "Saver_handle_keystroke 0
     \<lparr>description = ''My tasks'',
      tasks = [(''a'', \<lparr>key = ''a'', taskname = ''write'',
                         goaltime = \<lparr>seconds = 3600, start_time = None\<rparr>,
                         curtime = \<lparr>seconds = 125, start_time = None\<rparr>\<rparr>)]\<rparr> =
   ''My tasks\<newline>a|write|00:02|01:00\<newline>''"
  by code_simp

text \<open>
  Claim C7. The repository's only save is the Ruby script's; its timers are the
  \<^verbatim>\<open>curtime\<close> of the tasks, stopped when \<^verbatim>\<open>@start_time\<close> is \<^verbatim>\<open>nil\<close>, with
  \<^verbatim>\<open>@seconds\<close> the banked time. For every task set as a load produces it
  (\<open>wf_task_set\<close>, see \<open>TaskSet_initialize_wf\<close> below) in which every timer is stopped,
  loading what \<^verbatim>\<open>Saver#handle_keystroke\<close> writes succeeds and yields the same keys
  and task names in the same order, every timer stopped, and the seconds of each time
  rounded down to whole minutes (\<open>round_task\<close>).
\<close>

theorem load_save_round_trip:
  assumes "wf_task_set observers s" and "all_stopped s"
  shows "TaskSet_initialize observers (Some (Saver_handle_keystroke now s)) =
     Inr (\<lparr>description = chomp (description s @ [CHR 0x0A]),
           tasks = map (\<lambda>(k, t). (k, round_task t)) (tasks s)\<rparr>,
          observers @ map (\<lambda>(k, t). key_char k) (tasks s))"
proof -
  let ?body = "concat (map (\<lambda>(k, t). Task_to_s now t) (tasks s))"
  from assms(1) have nl: "CHR 0x0A \<notin> set (description s)"
    by (simp add: wf_task_set_def)
  have content: "Saver_handle_keystroke now s = description s @ CHR 0x0A # ?body"
    by (simp add: Saver_handle_keystroke_def puts_TaskSet_to_s) (simp add: TaskSet_to_s_def)
  have first: "gets (description s @ CHR 0x0A # ?body) = Some (description s @ [CHR 0x0A], ?body)"
    using nl by (rule gets_line)
  from assms have "\<forall>(k, t) \<in> set (tasks s). key t = k \<and> wf_text (key t) \<and>
      wf_text (taskname t) \<and> start_time (curtime t) = None \<and> start_time (goaltime t) = None"
    by (auto simp add: wf_task_set_def all_stopped_def)
  moreover from assms(1) have "distinct (observers @ map (\<lambda>(k, t). key_char k) (tasks s))"
    by (simp add: wf_task_set_def)
  ultimately have "read_tasks ?body observers [] =
      Inr ([] @ map (\<lambda>(k, t). (k, round_task t)) (tasks s),
           observers @ map (\<lambda>(k, t). key_char k) (tasks s))"
    by (intro read_tasks_saved) simp_all
  with first show ?thesis
    by (simp add: TaskSet_initialize_def content)
qed

theorem load_save_round_trip_witness:
  "TaskSet_initialize [Some CHR ''q'']
     (Some (Saver_handle_keystroke 0
        \<lparr>description = ''My tasks'',
         tasks = [(''a'', \<lparr>key = ''a'', taskname = ''write'',
                            goaltime = \<lparr>seconds = 3600, start_time = None\<rparr>,
                            curtime = \<lparr>seconds = 125, start_time = None\<rparr>\<rparr>),
                  (''b'', \<lparr>key = ''b'', taskname = ''read'',
                            goaltime = \<lparr>seconds = 1800, start_time = None\<rparr>,
                            curtime = \<lparr>seconds = 3725, start_time = None\<rparr>\<rparr>)]\<rparr>)) =
   Inr (\<lparr>description = ''My tasks'',
         tasks = [(''a'', \<lparr>key = ''a'', taskname = ''write'',
                            goaltime = \<lparr>seconds = 3600, start_time = None\<rparr>,
                            curtime = \<lparr>seconds = 120, start_time = None\<rparr>\<rparr>),
                  (''b'', \<lparr>key = ''b'', taskname = ''read'',
                            goaltime = \<lparr>seconds = 1800, start_time = None\<rparr>,
                            curtime = \<lparr>seconds = 3720, start_time = None\<rparr>\<rparr>)]\<rparr>,
        [Some CHR ''q'', Some CHR ''a'', Some CHR ''b''])"
  using load_save_round_trip [of "[Some CHR ''q'']"
      "\<lparr>description = ''My tasks'',
         tasks = [(''a'', \<lparr>key = ''a'', taskname = ''write'',
                            goaltime = \<lparr>seconds = 3600, start_time = None\<rparr>,
                            curtime = \<lparr>seconds = 125, start_time = None\<rparr>\<rparr>),
                  (''b'', \<lparr>key = ''b'', taskname = ''read'',
                            goaltime = \<lparr>seconds = 1800, start_time = None\<rparr>,
                            curtime = \<lparr>seconds = 3725, start_time = None\<rparr>\<rparr>)]\<rparr>" 0]
  by (simp add: wf_task_set_def wf_text_def all_stopped_def key_char_def chomp_def
      round_task_def round_time_def)

lemma round_task_fields:
  "key (round_task t) = key t \<and> taskname (round_task t) = taskname t \<and>
   start_time (curtime (round_task t)) = None \<and>
   seconds (curtime (round_task t)) = seconds (curtime t) div 60 * 60"
  by (simp add: round_task_def round_time_def)

subsection \<open>What a load establishes\<close>

lemma read_tasks_step:
  assumes "read_tasks f observers acc = Inr r" and "gets f = Some (line, f')"
  shows "\<exists>k nm goal cur. wf_text k \<and> wf_text nm \<and> start_time goal = None \<and>
     start_time cur = None \<and> key_char k \<notin> set observers \<and>
     read_tasks f' (observers @ [key_char k])
       (hash_store k \<lparr>key = k, taskname = nm, goaltime = goal, curtime = cur\<rparr> acc) = Inr r"
proof -
  define tokens where "tokens = ruby_split CHR ''|'' (chomp line)"
  from assms obtain cur where cur: "CreateTaskTime (at tokens 2) = Inr cur"
    by (auto simp add: read_tasks.simps [of f] tokens_def Let_def split: sum.splits)
  with assms obtain goal where goal: "CreateTaskTime (at tokens 3) = Inr goal"
    by (auto simp add: read_tasks.simps [of f] tokens_def Let_def split: sum.splits)
  from assms cur goal obtain ts' observers' where
    add: "add_task (tokens ! 0) (tokens ! 1) goal cur observers acc = Inr (ts', observers')"
    and rest: "read_tasks f' observers' ts' = Inr r"
    by (auto simp add: read_tasks.simps [of f] tokens_def [symmetric] Let_def split: sum.splits)
  from add have fresh: "key_char (tokens ! 0) \<notin> set observers"
    and obs': "observers' = observers @ [key_char (tokens ! 0)]"
    and ts': "ts' = hash_store (tokens ! 0)
        \<lparr>key = tokens ! 0, taskname = tokens ! 1, goaltime = goal, curtime = cur\<rparr> acc"
    by (auto simp add: add_task_def add_obs_def split: if_splits)
  from CreateTaskTime_Inr [OF cur] have len: "2 < length tokens"
    by (simp add: at_def split: if_splits)
  then have "0 < length tokens" "1 < length tokens" by linarith+
  then have mem: "tokens ! 0 \<in> set tokens" "tokens ! 1 \<in> set tokens"
    using nth_mem [of 0 tokens] nth_mem [of 1 tokens] by blast+
  have "CHR 0x0A \<notin> set (chomp line)"
    using gets_butlast [OF assms(2)] by (rule chomp_no_newline)
  with mem have "wf_text (tokens ! 0)" "wf_text (tokens ! 1)"
    using ruby_split_fields [of _ "CHR ''|''" "chomp line"]
    unfolding wf_text_def tokens_def by blast+
  with CreateTaskTime_Inr [OF cur] CreateTaskTime_Inr [OF goal] fresh rest obs' ts'
  show ?thesis by blast
qed

lemma read_tasks_wf:
  assumes "read_tasks f observers acc = Inr (ts, observers')"
    and "wf_task_set observers0 \<lparr>description = d, tasks = acc\<rparr>"
    and "all_stopped \<lparr>description = d, tasks = acc\<rparr>"
    and "observers = observers0 @ map (\<lambda>(k, t). key_char k) acc"
  shows "wf_task_set observers0 \<lparr>description = d, tasks = ts\<rparr> \<and>
         all_stopped \<lparr>description = d, tasks = ts\<rparr> \<and>
         observers' = observers0 @ map (\<lambda>(k, t). key_char k) ts"
  using assms
proof (induction "length f" arbitrary: f observers acc rule: less_induct)
  case less
  show ?case
  proof (cases "gets f")
    case None
    with less.prems show ?thesis
      by (auto simp add: read_tasks.simps [of f])
  next
    case (Some p)
    obtain line f' where p: "p = (line, f')" by (cases p)
    from read_tasks_step [OF less.prems(1) Some [unfolded p]]
    obtain k nm goal cur where k: "wf_text k" "wf_text nm" "start_time goal = None"
      "start_time cur = None" "key_char k \<notin> set observers"
      and rest: "read_tasks f' (observers @ [key_char k])
         (hash_store k \<lparr>key = k, taskname = nm, goaltime = goal, curtime = cur\<rparr> acc) =
         Inr (ts, observers')"
      by blast
    let ?t = "\<lparr>key = k, taskname = nm, goaltime = goal, curtime = cur\<rparr>"
    from k(5) less.prems(4) have "key_char k \<notin> (\<lambda>(k, t). key_char k) ` set acc"
      by simp
    then have "k \<notin> fst ` set acc" by force
    then have store: "hash_store k ?t acc = acc @ [(k, ?t)]"
      by (rule hash_store_fresh)
    have "wf_task_set observers0 \<lparr>description = d, tasks = acc @ [(k, ?t)]\<rparr>"
      using less.prems(2,4) k by (auto simp add: wf_task_set_def)
    moreover have "all_stopped \<lparr>description = d, tasks = acc @ [(k, ?t)]\<rparr>"
      using less.prems(3) k by (auto simp add: all_stopped_def)
    moreover have "observers @ [key_char k] =
        observers0 @ map (\<lambda>(k, t). key_char k) (acc @ [(k, ?t)])"
      using less.prems(4) by simp
    moreover have "length f' < length f"
      using Some p by (auto intro: gets_shorter)
    ultimately show ?thesis
      using less.hyps [of f' "observers @ [key_char k]" "acc @ [(k, ?t)]"] rest
      by (simp add: store)
  qed
qed

text \<open>
  Every successful load, started with distinct bound keys (\<^verbatim>\<open>main\<close> binds \<open>q\<close>
  before it loads), gives a task set that satisfies \<open>wf_task_set\<close> with all timers
  stopped; starting, stopping and zeroing timers change the times only.
\<close>

lemma TaskSet_initialize_wf:
  assumes "TaskSet_initialize observers src = Inr (s, observers')" and "distinct observers"
  shows "wf_task_set observers s \<and> all_stopped s \<and>
         observers' = observers @ map (\<lambda>(k, t). key_char k) (tasks s)"
proof -
  from assms(1) obtain f d f' ts where src: "src = Some f" and d: "gets f = Some (d, f')"
    and rd: "read_tasks f' observers [] = Inr (ts, observers')"
    and s: "s = \<lparr>description = chomp d, tasks = ts\<rparr>"
    by (auto simp add: TaskSet_initialize_def split: option.splits sum.splits)
  have "CHR 0x0A \<notin> set (chomp d)"
    using gets_butlast [OF d] by (rule chomp_no_newline)
  with assms(2) have "wf_task_set observers \<lparr>description = chomp d, tasks = []\<rparr>"
    and "all_stopped \<lparr>description = chomp d, tasks = []\<rparr>"
    by (simp_all add: wf_task_set_def all_stopped_def)
  from read_tasks_wf [OF rd this] s show ?thesis by simp
qed

lemma zero_timer_stopped:
  "start_time (curtime (zero_timer now t)) = None \<and> seconds (curtime (zero_timer now t)) = 0"
  by (simp add: zero_timer_def zero_time_def)


section \<open>The round trip through the C loader\<close>

text \<open>
  The law of claim C7 also holds for the C loader and the text format of the spec: a
  set of 1 to \<^verbatim>\<open>MAX_TIMETRACKERS\<close> stopped timers with loadable names and a banked
  time from 0 to \<open>2 ^ 31 - 1\<close> seconds is read back in the same order, stopped, with
  the seconds rounded down to whole minutes.
\<close>

lemma length_show_nat: "n < 10 ^ k \<Longrightarrow> 0 < k \<Longrightarrow> length (show_nat n) \<le> k"
proof (induction n arbitrary: k rule: show_nat.induct)
  case (1 n)
  show ?case
  proof (cases "n < 10")
    case True
    with "1.prems" show ?thesis by (simp add: show_nat.simps [of n])
  next
    case False
    from "1.prems"(2) obtain j where k: "k = Suc j" by (cases k) auto
    with "1.prems"(1) have "n div 10 < 10 ^ j"
      by (simp add: less_mult_imp_div_less mult.commute)
    moreover from False k "1.prems"(1) have "0 < j" by (cases j) auto
    ultimately have "length (show_nat (n div 10)) \<le> j"
      using "1.IH" False by simp
    with False k show ?thesis by (simp add: show_nat.simps [of n])
  qed
qed

lemma decimal_show_nat: "decimal (show_nat n) = n"
  by (simp add: decimal_def foldl_show_nat)

lemma save_line_shape:
  assumes "running t = 0" and "0 \<le>s remaining_seconds t"
    and "sint (remaining_seconds t) < 2 ^ 31"
  obtains ds where "save_line now t = config_line (name t) ds @ [CHR 0x0A]"
    and "valid_minutes ds" and "length ds \<le> 10"
    and "initial_timer (name t) ds = (round_minutes t)\<lparr>finish_time := 0\<rparr>"
proof -
  define r where "r = sint (remaining_seconds t)"
  define m where "m = nat (r div 60)"
  from assms(2) have r0: "0 \<le> r" by (simp add: r_def word_sle_eq)
  from assms(3) have r1: "r < 2 ^ 31" by (simp add: r_def)
  from r0 have m: "int m = r div 60" by (simp add: m_def)
  have "r div 60 * 60 \<le> r" by (simp add: r0)
  with r1 m have small: "m * 60 < 2 ^ 31"
    by (metis (mono_tags, opaque_lifting) le_less_trans of_nat_less_iff of_nat_mult
        of_nat_numeral of_nat_power)
  from r0 assms(1) have line: "save_line now t = config_line (name t) (show_nat m) @ [CHR 0x0A]"
    by (simp add: save_line_def config_line_def effective_remaining_def show_int_def r_def m_def)
  have vm: "valid_minutes (show_nat m)"
    using small show_nat_digits show_nat_nonempty
    by (auto simp add: valid_minutes_def decimal_show_nat)
  from small have "m < 10 ^ 10" by simp
  then have len: "length (show_nat m) \<le> 10" by (rule length_show_nat) simp
  have "(word_of_nat (m * 60) :: time_t) = word_of_int (r div 60 * 60)"
    using m by (metis of_nat_mult of_nat_numeral word_of_int_nat of_int_of_nat_eq)
  with assms(1) have init: "initial_timer (name t) (show_nat m) = (round_minutes t)\<lparr>finish_time := 0\<rparr>"
    by (simp add: initial_timer_def round_minutes_def decimal_show_nat r_def)
  from line vm len init that show ?thesis by blast
qed

lemma read_saved_timers:
  assumes "\<forall>t \<in> set tts. running t = 0 \<and> valid_name (name t) \<and> CHR 0x0A \<notin> set (name t) \<and>
      0 \<le>s remaining_seconds t \<and> sint (remaining_seconds t) < 2 ^ 31"
    and "length acc + length tts \<le> MAX_TIMETRACKERS"
  shows "read_timetrackers (save now tts) line_no acc =
     (if acc @ tts = [] then Inl NoTimetrackersFound
      else Inr (acc @ map (\<lambda>t. (round_minutes t)\<lparr>finish_time := 0\<rparr>) tts))"
  using assms
proof (induction tts arbitrary: line_no acc)
  case Nil
  then show ?case
    by (simp add: save_def read_timetrackers.simps [of "[]"] fgets_def)
next
  case (Cons t tts)
  from Cons.prems(1) have t: "running t = 0" "valid_name (name t)" "CHR 0x0A \<notin> set (name t)"
    "0 \<le>s remaining_seconds t" "sint (remaining_seconds t) < 2 ^ 31"
    by simp_all
  from save_line_shape [OF t(1,4,5), of now] obtain ds where
    line: "save_line now t = config_line (name t) ds @ [CHR 0x0A]"
    and vm: "valid_minutes ds" and len: "length ds \<le> 10"
    and init: "initial_timer (name t) ds = (round_minutes t)\<lparr>finish_time := 0\<rparr>"
    by blast
  let ?x = "config_line (name t) ds"
  from vm have digits: "\<forall>c \<in> set ds. isdigit c" by (simp add: valid_minutes_def)
  then have "CHR 0x0A \<notin> set ds" using isdigit_plain by blast
  with t(3) have nl: "CHR 0x0A \<notin> set ?x" by (simp add: config_line_def)
  from t(2) len have short: "length ?x < 159"
    by (simp add: config_line_def valid_name_def TT_NAME_SZ_def)
  from fgets_line [OF nl short]
  have fg: "fgets 160 (save now (t # tts)) = Some (?x @ [CHR 0x0A], save now tts)"
    by (simp add: save_def line)
  have parse: "parse_timetracker (?x @ [CHR 0x0A]) = Parsed ((round_minutes t)\<lparr>finish_time := 0\<rparr>)"
    using parse_config_line [OF t(2) vm, of "?x @ [CHR 0x0A]"] init by simp
  from Cons.prems(2) have room: "\<not> MAX_TIMETRACKERS \<le> length acc" by simp
  have "read_timetrackers (save now (t # tts)) line_no acc =
      read_timetrackers (save now tts) (Suc line_no) (acc @ [(round_minutes t)\<lparr>finish_time := 0\<rparr>])"
    by (simp add: read_timetrackers.simps [of "save now (t # tts)"] fg parse room)
  also have "\<dots> = Inr ((acc @ [(round_minutes t)\<lparr>finish_time := 0\<rparr>]) @
      map (\<lambda>t. (round_minutes t)\<lparr>finish_time := 0\<rparr>) tts)"
    using Cons.prems by (subst Cons.IH) simp_all
  finally show ?case by simp
qed

lemma spec_save_round_trip:
  assumes "tts \<noteq> []" and "length tts \<le> MAX_TIMETRACKERS"
    and "\<forall>t \<in> set tts. running t = 0 \<and> valid_name (name t) \<and> CHR 0x0A \<notin> set (name t) \<and>
      0 \<le>s remaining_seconds t \<and> sint (remaining_seconds t) < 2 ^ 31"
  shows "get_timetrackers (Some (save now tts)) =
     Inr (map (\<lambda>t. (round_minutes t)\<lparr>finish_time := 0\<rparr>) tts)"
  using read_saved_timers [OF assms(3), of "[]" now 0] assms(1,2)
  by (simp add: get_timetrackers_def)

lemma spec_save_example:
  "save 1000 [\<lparr>name = ''A'', running = 0, remaining_seconds = 325, finish_time = 0\<rparr>,
              \<lparr>name = ''B'', running = 0, remaining_seconds = 600, finish_time = 0\<rparr>] =
     ''A=5M\<newline>B=10M\<newline>''"
  by code_simp


end
